theory Spec2Isabelle
  imports Complex_Main "HOL-Library.Multiset"
begin

section \<open>JavaScript values\<close>

subsection \<open>Numbers\<close>

text \<open>
  A number is an IEEE double: a finite value, \<open>NaN\<close> or an infinity. A finite double is
  kept as the rational it denotes (the sign of zero is not kept). An arithmetic operation
  on finite operands returns its exact result rounded to a double; the rounding, which
  overflows to an infinity, is the parameter \<open>fl\<close> of the operations below.
\<close>

datatype number = Finite rat | NaN | PosInfinity | NegInfinity

fun js_negate :: "number \<Rightarrow> number" where
  "js_negate (Finite a) = Finite (- a)"
| "js_negate NaN = NaN"
| "js_negate PosInfinity = NegInfinity"
| "js_negate NegInfinity = PosInfinity"

text \<open>\<open>x + y\<close> on two numbers.\<close>

fun js_add :: "(rat \<Rightarrow> number) \<Rightarrow> number \<Rightarrow> number \<Rightarrow> number" where
  "js_add fl (Finite a) (Finite b) = fl (a + b)"
| "js_add fl NaN y = NaN"
| "js_add fl x NaN = NaN"
| "js_add fl PosInfinity NegInfinity = NaN"
| "js_add fl NegInfinity PosInfinity = NaN"
| "js_add fl PosInfinity y = PosInfinity"
| "js_add fl NegInfinity y = NegInfinity"
| "js_add fl x PosInfinity = PosInfinity"
| "js_add fl x NegInfinity = NegInfinity"

text \<open>\<open>x - y\<close> on two numbers: the sum of \<open>x\<close> and the opposite of \<open>y\<close>.\<close>

definition js_sub :: "(rat \<Rightarrow> number) \<Rightarrow> number \<Rightarrow> number \<Rightarrow> number" where
  "js_sub fl x y = js_add fl x (js_negate y)"

text \<open>
  \<open>x / n\<close> for a number \<open>x\<close> and the length \<open>n\<close> of an array, a non-negative integer.
\<close>

fun js_div_length :: "(rat \<Rightarrow> number) \<Rightarrow> number \<Rightarrow> nat \<Rightarrow> number" where
  "js_div_length fl (Finite a) n =
     (if n = 0 then (if a = 0 then NaN else if 0 < a then PosInfinity else NegInfinity)
      else fl (a / of_nat n))"
| "js_div_length fl NaN n = NaN"
| "js_div_length fl PosInfinity n = PosInfinity"
| "js_div_length fl NegInfinity n = NegInfinity"

text \<open>
  The lesser and the greater of two numbers as \<open>Math.min\<close> and \<open>Math.max\<close> take them:
  \<open>NaN\<close> when either is \<open>NaN\<close>.
\<close>

fun js_min :: "number \<Rightarrow> number \<Rightarrow> number" where
  "js_min NaN y = NaN"
| "js_min x NaN = NaN"
| "js_min NegInfinity y = NegInfinity"
| "js_min x NegInfinity = NegInfinity"
| "js_min PosInfinity y = y"
| "js_min x PosInfinity = x"
| "js_min (Finite a) (Finite b) = Finite (min a b)"

fun js_max :: "number \<Rightarrow> number \<Rightarrow> number" where
  "js_max NaN y = NaN"
| "js_max x NaN = NaN"
| "js_max PosInfinity y = PosInfinity"
| "js_max x PosInfinity = PosInfinity"
| "js_max NegInfinity y = y"
| "js_max x NegInfinity = x"
| "js_max (Finite a) (Finite b) = Finite (max a b)"

subsection \<open>Values\<close>

text \<open>
  The values the data analyzer handles at run time. An object is the association list of
  its own properties, in insertion order (the first binding of a key is the property).
  Members inherited from \<open>Object.prototype\<close> are modelled only where a key comes from
  the data (see \<open>groupBy\<close>); the field names the source writes out (\<open>id\<close>,
  \<open>product\<close>, \<open>price\<close>, ...) are not such members.
\<close>

datatype jsval =
    JUndefined
  | JNull
  | JBool bool
  | JNumber number
  | JStr string
  | JArr "jsval list"
  | JObj "(string \<times> jsval) list"

text \<open>A finite number as a value.\<close>

abbreviation JNum :: "rat \<Rightarrow> jsval" where
  "JNum q \<equiv> JNumber (Finite q)"

text \<open>A record of a dataset (\<open>T extends Record<string, any>\<close>) is an object.\<close>

type_synonym dataRecord = "(string \<times> jsval) list"

type_synonym dataset = "dataRecord list"

text \<open>The \<open>typeof\<close> operator.\<close>

fun typeof :: "jsval \<Rightarrow> string" where
  "typeof JUndefined = ''undefined''"
| "typeof JNull = ''object''"
| "typeof (JBool b) = ''boolean''"
| "typeof (JNumber n) = ''number''"
| "typeof (JStr s) = ''string''"
| "typeof (JArr xs) = ''object''"
| "typeof (JObj kvs) = ''object''"

text \<open>
  \<open>item[field]\<close> on a record: the property, or \<open>undefined\<close> when it is absent.
  \<open>field\<close> is a key of the record type (\<open>keyof T\<close>).
\<close>

definition get :: "dataRecord \<Rightarrow> string \<Rightarrow> jsval" where
  "get item field = (case map_of item field of Some v \<Rightarrow> v | None \<Rightarrow> JUndefined)"

text \<open>
  Strict equality \<open>===\<close>. Primitives are compared by value, and \<open>NaN\<close> is equal to
  nothing, itself included. Two object operands are equal
  only when they are the same reference; the value model has no references, and the
  record shapes of the repository (\<open>Sale\<close>, \<open>User\<close>, \<open>DataRecord\<close>) have primitive fields
  only, so an object or array operand is taken to be a reference of its own.
\<close>

fun strict_eq :: "jsval \<Rightarrow> jsval \<Rightarrow> bool" where
  "strict_eq JUndefined JUndefined = True"
| "strict_eq JNull JNull = True"
| "strict_eq (JBool a) (JBool b) = (a = b)"
| "strict_eq (JNumber a) (JNumber b) = (a \<noteq> NaN \<and> a = b)"
| "strict_eq (JStr a) (JStr b) = (a = b)"
| "strict_eq _ _ = False"

subsection \<open>Errors\<close>

text \<open>
  What a \<open>throw\<close> carries: an \<open>Error\<close> the repository creates with its message, a
  \<open>TypeError\<close> or a \<open>RangeError\<close> of the runtime (their messages are the engine's
  and are left out), or the failure of an external collaborator (the file system, a
  parser), kept as the text \<open>String(error)\<close> prints for it.
\<close>

datatype js_error =
    Error string
  | TypeError
  | RangeError
  | External string

fun String_of_error :: "js_error \<Rightarrow> string" where
  "String_of_error (Error message) = ''Error: '' @ message"
| "String_of_error TypeError = ''TypeError''"
| "String_of_error RangeError = ''RangeError''"
| "String_of_error (External printed) = printed"

text \<open>
  The messages of the source are Chinese text; they are kept as the UTF-8 bytes of the
  literals: "data format validation failed", "XML parsing failed: ",
  "CSV reading failed: " and "JSON reading failed: ".
\<close>

definition validation_failed_message :: string where
  "validation_failed_message =
     [CHR 0xE6, CHR 0x95, CHR 0xB0, CHR 0xE6, CHR 0x8D, CHR 0xAE, CHR 0xE6, CHR 0xA0,
      CHR 0xBC, CHR 0xE5, CHR 0xBC, CHR 0x8F, CHR 0xE9, CHR 0xAA, CHR 0x8C, CHR 0xE8,
      CHR 0xAF, CHR 0x81, CHR 0xE5, CHR 0xA4, CHR 0xB1, CHR 0xE8, CHR 0xB4, CHR 0xA5]"

definition xml_failed_prefix :: string where
  "xml_failed_prefix =
     ''XML '' @
     [CHR 0xE8, CHR 0xA7, CHR 0xA3, CHR 0xE6, CHR 0x9E, CHR 0x90, CHR 0xE5, CHR 0xA4,
      CHR 0xB1, CHR 0xE8, CHR 0xB4, CHR 0xA5] @ '': ''"

definition csv_failed_prefix :: string where
  "csv_failed_prefix =
     ''CSV'' @
     [CHR 0xE8, CHR 0xAF, CHR 0xBB, CHR 0xE5, CHR 0x8F, CHR 0x96, CHR 0xE5, CHR 0xA4,
      CHR 0xB1, CHR 0xE8, CHR 0xB4, CHR 0xA5] @ '': ''"

definition json_failed_prefix :: string where
  "json_failed_prefix =
     ''JSON'' @
     [CHR 0xE8, CHR 0xAF, CHR 0xBB, CHR 0xE5, CHR 0x8F, CHR 0x96, CHR 0xE5, CHR 0xA4,
      CHR 0xB1, CHR 0xE8, CHR 0xB4, CHR 0xA5] @ '': ''"

subsection \<open>Operators and property access\<close>

text \<open>Truthiness, as \<open>&&\<close> and \<open>if\<close> test it.\<close>

fun truthy :: "jsval \<Rightarrow> bool" where
  "truthy JUndefined = False"
| "truthy JNull = False"
| "truthy (JBool b) = b"
| "truthy (JNumber n) = (n \<noteq> Finite 0 \<and> n \<noteq> NaN)"
| "truthy (JStr s) = (s \<noteq> [])"
| "truthy (JArr xs) = True"
| "truthy (JObj kvs) = True"

fun Array_isArray :: "jsval \<Rightarrow> bool" where
  "Array_isArray (JArr xs) = True"
| "Array_isArray _ = False"

text \<open>The canonical text of an array index: its decimal digits.\<close>

definition digit :: "nat \<Rightarrow> char" where
  "digit d = char_of (48 + d)"

fun index_text :: "nat \<Rightarrow> string" where
  "index_text i = (if i < 10 then [digit i] else index_text (i div 10) @ [digit (i mod 10)])"

declare index_text.simps [simp del]

text \<open>
  The properties of an array or a string: its indices and \<open>length\<close>.
\<close>

definition index_of_key :: "nat \<Rightarrow> string \<Rightarrow> nat option" where
  "index_of_key len key = find (\<lambda>i. index_text i = key) [0..<len]"

text \<open>
  \<open>key in obj\<close>: whether the object has the property, a \<open>TypeError\<close> when the right
  operand is not an object. The keys the source tests are field names, which no object
  inherits.
\<close>

fun js_in :: "string \<Rightarrow> jsval \<Rightarrow> js_error + bool" where
  "js_in key (JObj kvs) = Inr (key \<in> set (map fst kvs))"
| "js_in key (JArr xs) = Inr (key = ''length'' \<or> index_of_key (length xs) key \<noteq> None)"
| "js_in key _ = Inl TypeError"

text \<open>
  \<open>obj[key]\<close> and \<open>obj.key\<close>: a \<open>TypeError\<close> on \<open>undefined\<close> and \<open>null\<close>,
  \<open>undefined\<close> for a property the value does not have. The names the source reads
  this way (\<open>sales\<close>, \<open>sale\<close> and the field names) are not names of members
  inherited from a prototype.
\<close>

fun get_prop :: "jsval \<Rightarrow> string \<Rightarrow> js_error + jsval" where
  "get_prop JUndefined key = Inl TypeError"
| "get_prop JNull key = Inl TypeError"
| "get_prop (JBool b) key = Inr JUndefined"
| "get_prop (JNumber n) key = Inr JUndefined"
| "get_prop (JStr s) key =
     Inr (if key = ''length'' then JNum (of_nat (length s))
          else case index_of_key (length s) key of
                 Some i \<Rightarrow> JStr [s ! i]
               | None \<Rightarrow> JUndefined)"
| "get_prop (JArr xs) key =
     Inr (if key = ''length'' then JNum (of_nat (length xs))
          else case index_of_key (length xs) key of
                 Some i \<Rightarrow> xs ! i
               | None \<Rightarrow> JUndefined)"
| "get_prop (JObj kvs) key = Inr (get kvs key)"

text \<open>
  A chain of \<open>&&\<close> (and the callback results of \<open>Array.prototype.every\<close>), read from
  the left: a false operand ends the chain with \<open>false\<close>, an operand that raises ends it
  with the error, and the operands after it are not evaluated.
\<close>

fun all_of :: "(js_error + bool) list \<Rightarrow> js_error + bool" where
  "all_of [] = Inr True"
| "all_of (Inl e # rest) = Inl e"
| "all_of (Inr False # rest) = Inr False"
| "all_of (Inr True # rest) = all_of rest"

text \<open>\<open>typeof obj[key] === t\<close>.\<close>

definition typeof_prop :: "jsval \<Rightarrow> string \<Rightarrow> string \<Rightarrow> js_error + bool" where
  "typeof_prop obj key t =
     (case get_prop obj key of Inl e \<Rightarrow> Inl e | Inr v \<Rightarrow> Inr (typeof v = t))"

subsection \<open>Strings\<close>

text \<open>
  A string is the sequence of the bytes of its UTF-8 encoding.
  \<open>String.prototype.split(separator)\<close> for a one-character separator,
  \<open>toLowerCase\<close> on the ASCII letters (no character outside ASCII lowers to a letter
  of \<open>csv\<close>, \<open>json\<close> or \<open>xml\<close>), and \<open>Array.prototype.pop\<close>, which is
  \<open>undefined\<close> on an empty array.
\<close>

fun split_from :: "char \<Rightarrow> string \<Rightarrow> string \<Rightarrow> string list" where
  "split_from sep cur [] = [cur]"
| "split_from sep cur (c # cs) =
     (if c = sep then cur # split_from sep [] cs else split_from sep (cur @ [c]) cs)"

definition String_split :: "char \<Rightarrow> string \<Rightarrow> string list" where
  "String_split sep s = split_from sep [] s"

definition Array_pop :: "'a list \<Rightarrow> 'a option" where
  "Array_pop xs = (if xs = [] then None else Some (last xs))"

definition toLowerCase :: "string \<Rightarrow> string" where
  "toLowerCase s =
     map (\<lambda>c. if 65 \<le> (of_char c :: nat) \<and> (of_char c :: nat) \<le> 90
               then char_of ((of_char c :: nat) + 32) else c) s"

text \<open>
  \<open>String.prototype.trim\<close> removes the white space and the line terminators of
  ECMAScript from both ends. In UTF-8 they are: one byte for U+0009 to U+000D and
  U+0020; two bytes for U+00A0; three bytes for U+1680, U+2000 to U+200A, U+2028, U+2029,
  U+202F, U+205F, U+3000 and U+FEFF.
\<close>

definition white_space1 :: "char \<Rightarrow> bool" where
  "white_space1 a = ((of_char a :: nat) \<in> {0x09, 0x0A, 0x0B, 0x0C, 0x0D, 0x20})"

definition white_space2 :: "char \<Rightarrow> char \<Rightarrow> bool" where
  "white_space2 a b = ((of_char a :: nat) = 0xC2 \<and> (of_char b :: nat) = 0xA0)"

definition white_space3 :: "char \<Rightarrow> char \<Rightarrow> char \<Rightarrow> bool" where
  "white_space3 a b c =
     (let x = (of_char a :: nat); y = (of_char b :: nat); z = (of_char c :: nat)
      in (x = 0xE1 \<and> y = 0x9A \<and> z = 0x80) \<or>
         (x = 0xE2 \<and> y = 0x80 \<and> (0x80 \<le> z \<and> z \<le> 0x8A \<or> z = 0xA8 \<or> z = 0xA9 \<or> z = 0xAF)) \<or>
         (x = 0xE2 \<and> y = 0x81 \<and> z = 0x9F) \<or>
         (x = 0xE3 \<and> y = 0x80 \<and> z = 0x80) \<or>
         (x = 0xEF \<and> y = 0xBB \<and> z = 0xBF))"

text \<open>
  Removing from the front every character that one of three tests accepts, on its one,
  two or three bytes.
\<close>

fun strip_front ::
  "(char \<Rightarrow> bool) \<Rightarrow> (char \<Rightarrow> char \<Rightarrow> bool) \<Rightarrow> (char \<Rightarrow> char \<Rightarrow> char \<Rightarrow> bool) \<Rightarrow>
     string \<Rightarrow> string" where
  "strip_front w1 w2 w3 (a # b # c # rest) =
     (if w1 a then strip_front w1 w2 w3 (b # c # rest)
      else if w2 a b then strip_front w1 w2 w3 (c # rest)
      else if w3 a b c then strip_front w1 w2 w3 rest
      else a # b # c # rest)"
| "strip_front w1 w2 w3 [a, b] =
     (if w1 a then strip_front w1 w2 w3 [b] else if w2 a b then [] else [a, b])"
| "strip_front w1 w2 w3 [a] = (if w1 a then [] else [a])"
| "strip_front w1 w2 w3 [] = []"

definition trimStart :: "string \<Rightarrow> string" where
  "trimStart s = strip_front white_space1 white_space2 white_space3 s"

text \<open>At the end of the string the bytes of a character are met last byte first.\<close>

definition trimEnd :: "string \<Rightarrow> string" where
  "trimEnd s =
     rev (strip_front white_space1 (\<lambda>b a. white_space2 a b) (\<lambda>c b a. white_space3 a b c)
            (rev s))"

definition trim :: "string \<Rightarrow> string" where
  "trim s = trimEnd (trimStart s)"

section \<open>Record validators\<close>

text \<open>\<open>isSale\<close> and \<open>isUser\<close> of \<open>utils/helpers.ts\<close>.\<close>

definition isSale :: "jsval \<Rightarrow> js_error + bool" where
  "isSale obj =
     all_of [Inr (typeof obj = ''object''), Inr (obj \<noteq> JNull),
             js_in ''id'' obj, js_in ''product'' obj, js_in ''price'' obj]"

definition isUser :: "jsval \<Rightarrow> js_error + bool" where
  "isUser obj =
     all_of [Inr (typeof obj = ''object''), Inr (obj \<noteq> JNull),
             js_in ''id'' obj, js_in ''name'' obj, js_in ''email'' obj]"

text \<open>\<open>isNumber\<close> of \<open>utils/helpers.ts\<close>: \<open>typeof value === 'number' && !isNaN(value)\<close>.\<close>

definition isNumber :: "jsval \<Rightarrow> bool" where
  "isNumber val = (typeof val = ''number'' \<and> val \<noteq> JNumber NaN)"

text \<open>
  The private \<open>isSale\<close> of \<open>CsvReader\<close>; \<open>XmlReader\<close> has the same method, word for
  word.
\<close>

definition CsvReader_isSale :: "jsval \<Rightarrow> js_error + bool" where
  "CsvReader_isSale obj =
     all_of [Inr (typeof obj = ''object''), Inr (obj \<noteq> JNull),
             js_in ''id'' obj, typeof_prop obj ''id'' ''number'',
             js_in ''product'' obj, typeof_prop obj ''product'' ''string'',
             js_in ''category'' obj, typeof_prop obj ''category'' ''string'',
             js_in ''price'' obj, typeof_prop obj ''price'' ''number'',
             js_in ''quantity'' obj, typeof_prop obj ''quantity'' ''number'',
             js_in ''date'' obj, typeof_prop obj ''date'' ''string'']"

definition XmlReader_isSale :: "jsval \<Rightarrow> js_error + bool" where
  "XmlReader_isSale obj = CsvReader_isSale obj"

text \<open>The private \<open>isUser\<close> of \<open>JsonReader\<close>: no test that \<open>obj\<close> is an object.\<close>

definition JsonReader_requiredFields :: "string list" where
  "JsonReader_requiredFields = [''id'', ''name'', ''age'', ''email'', ''role'', ''active'']"

definition JsonReader_types :: "(string \<times> string) list" where
  "JsonReader_types =
     [(''id'', ''number''), (''name'', ''string''), (''age'', ''number''),
      (''email'', ''string''), (''role'', ''string''), (''active'', ''boolean'')]"

definition JsonReader_isUser :: "jsval \<Rightarrow> js_error + bool" where
  "JsonReader_isUser obj =
     all_of (map (\<lambda>field.
                    all_of [js_in field obj,
                            case get_prop obj field of
                              Inl e \<Rightarrow> Inl e
                            | Inr v \<Rightarrow> Inr (Some (typeof v) = map_of JsonReader_types field)])
               JsonReader_requiredFields)"

text \<open>
  \<open>validate(data)\<close> of a reader, over the element test of its shape: not an array gives
  \<open>false\<close>, the empty array \<open>true\<close>, otherwise \<open>data.every(isShape)\<close>.
\<close>

fun validate_with :: "(jsval \<Rightarrow> js_error + bool) \<Rightarrow> jsval \<Rightarrow> js_error + bool" where
  "validate_with isShape (JArr items) =
     (if length items = 0 then Inr True else all_of (map isShape items))"
| "validate_with isShape _ = Inr False"

definition CsvReader_validate :: "jsval \<Rightarrow> js_error + bool" where
  "CsvReader_validate data = validate_with CsvReader_isSale data"

definition XmlReader_validate :: "jsval \<Rightarrow> js_error + bool" where
  "XmlReader_validate data = validate_with XmlReader_isSale data"

definition JsonReader_validate :: "jsval \<Rightarrow> js_error + bool" where
  "JsonReader_validate data = validate_with JsonReader_isUser data"

text \<open>
  The validity the specification asks of a shape, in its words: the value is a non-null
  object, every required field is an own key, and the run-time type of each required
  field is the declared one.
\<close>

fun own_property :: "jsval \<Rightarrow> string \<Rightarrow> jsval option" where
  "own_property (JObj kvs) key = map_of kvs key"
| "own_property (JArr xs) key =
     (if key = ''length'' then Some (JNum (of_nat (length xs)))
      else map_option (\<lambda>i. xs ! i) (index_of_key (length xs) key))"
| "own_property _ key = None"

definition conforms :: "(string \<times> string) list \<Rightarrow> jsval \<Rightarrow> bool" where
  "conforms shape v =
     (typeof v = ''object'' \<and> v \<noteq> JNull \<and>
      list_all (\<lambda>(field, t). case own_property v field of
                                 Some x \<Rightarrow> typeof x = t
                               | None \<Rightarrow> False) shape)"

definition Sale_shape :: "(string \<times> string) list" where
  "Sale_shape =
     [(''id'', ''number''), (''product'', ''string''), (''category'', ''string''),
      (''price'', ''number''), (''quantity'', ''number''), (''date'', ''string'')]"

definition User_shape :: "(string \<times> string) list" where
  "User_shape =
     [(''id'', ''number''), (''name'', ''string''), (''age'', ''number''),
      (''email'', ''string''), (''role'', ''string''), (''active'', ''boolean'')]"

section \<open>Record sources\<close>

datatype FileType = CSV | JSON | XML | UNKNOWN

text \<open>
  The private \<open>detectFileType\<close> of \<open>DataSource\<close> and the exported one of
  \<open>utils/helpers.ts\<close>.
\<close>

definition DataSource_detectFileType :: "string \<Rightarrow> FileType" where
  "DataSource_detectFileType path =
     (case map_option toLowerCase (Array_pop (String_split (CHR ''.'') path)) of
        Some extension \<Rightarrow>
          (if extension = ''csv'' then CSV
           else if extension = ''json'' then JSON
           else UNKNOWN)
      | None \<Rightarrow> UNKNOWN)"

definition detectFileType :: "string \<Rightarrow> FileType" where
  "detectFileType filePath =
     (case map_option toLowerCase (Array_pop (String_split (CHR ''.'') filePath)) of
        Some extension \<Rightarrow>
          (if extension = ''csv'' then CSV
           else if extension = ''json'' then JSON
           else if extension = ''xml'' then XML
           else UNKNOWN)
      | None \<Rightarrow> UNKNOWN)"

text \<open>
  The fields of a \<open>DataSource\<close>, its constructor, the constructor of \<open>XmlReader\<close>
  (which overwrites the detected type) and \<open>getFileInfo\<close>.
\<close>

record DataSource =
  filePath :: string
  fileType :: FileType

definition DataSource_new :: "string \<Rightarrow> DataSource" where
  "DataSource_new path = \<lparr>filePath = path, fileType = DataSource_detectFileType path\<rparr>"

definition XmlReader_new :: "string \<Rightarrow> DataSource" where
  "XmlReader_new path = (DataSource_new path)\<lparr>fileType := XML\<rparr>"

definition getFileInfo :: "DataSource \<Rightarrow> string \<times> FileType" where
  "getFileInfo this = (filePath this, fileType this)"

text \<open>
  \<open>load()\<close>, the template method. \<open>read\<close> is the reader's \<open>read()\<close>, an operation on
  the outside world \<open>'w\<close> that returns the raw data or raises; \<open>validate\<close> is the
  reader's \<open>validate\<close>. The \<open>catch\<close> block logs and rethrows the error it caught.
  Console output is not modelled.
\<close>

definition load ::
  "('w \<Rightarrow> (js_error + jsval) \<times> 'w) \<Rightarrow> (jsval \<Rightarrow> js_error + bool) \<Rightarrow> 'w \<Rightarrow> (js_error + jsval) \<times> 'w" where
  "load read validate w =
     (case read w of
        (Inl error, w') \<Rightarrow> (Inl error, w')
      | (Inr data, w') \<Rightarrow>
          (case validate data of
             Inl error \<Rightarrow> (Inl error, w')
           | Inr False \<Rightarrow> (Inl (Error validation_failed_message), w')
           | Inr True \<Rightarrow> (Inr data, w')))"

subsection \<open>Readers\<close>

text \<open>
  The file system is the function \<open>readFile\<close> from a path to the content of the file or
  to the failure of the read. The parsers (\<open>fast-xml-parser\<close>, \<open>JSON.parse\<close>) and the
  conversion \<open>Number\<close> are collaborators of the runtime and are parameters.
\<close>

fun elements :: "jsval \<Rightarrow> jsval list" where
  "elements (JArr xs) = xs"
| "elements _ = []"

text \<open>
  \<open>salesArray.forEach(item => { if (this.isSale(item)) data.push(item) })\<close>, with
  \<open>data\<close> the array built so far.
\<close>

fun forEach_push :: "jsval list \<Rightarrow> jsval list \<Rightarrow> js_error + jsval list" where
  "forEach_push data [] = Inr data"
| "forEach_push data (item # rest) =
     (case XmlReader_isSale item of
        Inl e \<Rightarrow> Inl e
      | Inr ok \<Rightarrow> forEach_push (if ok then data @ [item] else data) rest)"

text \<open>The statements of \<open>XmlReader.read\<close> between the parse and the \<open>return\<close>.\<close>

definition XmlReader_collect :: "jsval \<Rightarrow> js_error + jsval" where
  "XmlReader_collect jsonObj =
     (if \<not> truthy jsonObj then Inr (JArr [])
      else case get_prop jsonObj ''sales'' of
        Inl e \<Rightarrow> Inl e
      | Inr sales \<Rightarrow>
          if \<not> truthy sales then Inr (JArr [])
          else case get_prop sales ''sale'' of
            Inl e \<Rightarrow> Inl e
          | Inr sale \<Rightarrow>
              if \<not> truthy sale then Inr (JArr [])
              else let salesArray = (if Array_isArray sale then elements sale else [sale])
                   in case forEach_push [] salesArray of
                        Inl e \<Rightarrow> Inl e
                      | Inr data \<Rightarrow> Inr (JArr data))"

definition XmlReader_read ::
  "(string \<Rightarrow> js_error + jsval) \<Rightarrow> string \<Rightarrow> (string \<Rightarrow> js_error + string) \<Rightarrow> js_error + jsval" where
  "XmlReader_read parse path readFile =
     (case (case readFile path of
              Inl e \<Rightarrow> Inl e
            | Inr content \<Rightarrow>
                (case parse content of
                   Inl e \<Rightarrow> Inl e
                 | Inr jsonObj \<Rightarrow> XmlReader_collect jsonObj)) of
        Inl error \<Rightarrow> Inl (Error (xml_failed_prefix @ String_of_error error))
      | Inr data \<Rightarrow> Inr data)"

text \<open>
  What the specification says the XML reader extracts: the value at the fixed nested path
  \<open>sales.sale\<close> of the parsed document, as a sequence whether it is one element or
  many (and no element when the path leads nowhere).
\<close>

definition sale_elements :: "jsval \<Rightarrow> jsval list" where
  "sale_elements jsonObj =
     (case jsonObj of
        JObj document \<Rightarrow>
          (case get document ''sales'' of
             JObj sales \<Rightarrow>
               (case get sales ''sale'' of
                  JArr xs \<Rightarrow> xs
                | sale \<Rightarrow> if truthy sale then [sale] else [])
           | _ \<Rightarrow> [])
      | _ \<Rightarrow> [])"

text \<open>\<open>values[i]\<close> on an array of strings: \<open>undefined\<close> past its end.\<close>

definition value_at :: "string list \<Rightarrow> nat \<Rightarrow> jsval" where
  "value_at vs i = (if i < length vs then JStr (vs ! i) else JUndefined)"

text \<open>The body of the loop of \<open>CsvReader.read\<close>: one record from one line.\<close>

definition sale_of_line :: "(jsval \<Rightarrow> jsval) \<Rightarrow> string \<Rightarrow> jsval" where
  "sale_of_line Number line =
     (let vs = map trim (String_split (CHR '','') line)
      in JObj [(''id'', Number (value_at vs 0)),
               (''product'', value_at vs 1),
               (''category'', value_at vs 2),
               (''price'', Number (value_at vs 3)),
               (''quantity'', Number (value_at vs 4)),
               (''date'', value_at vs 5)])"

definition CsvReader_read ::
  "(jsval \<Rightarrow> jsval) \<Rightarrow> string \<Rightarrow> (string \<Rightarrow> js_error + string) \<Rightarrow> js_error + jsval" where
  "CsvReader_read Number path readFile =
     (case readFile path of
        Inl error \<Rightarrow> Inl (Error (csv_failed_prefix @ String_of_error error))
      | Inr content \<Rightarrow>
          (let lines = String_split (CHR 0x0A) (trim content)
           in Inr (JArr (map (sale_of_line Number) (drop 1 lines)))))"

definition JsonReader_read ::
  "(string \<Rightarrow> js_error + jsval) \<Rightarrow> string \<Rightarrow> (string \<Rightarrow> js_error + string) \<Rightarrow> js_error + jsval" where
  "JsonReader_read JSON_parse path readFile =
     (case (case readFile path of
              Inl e \<Rightarrow> Inl e
            | Inr content \<Rightarrow> JSON_parse content) of
        Inl error \<Rightarrow> Inl (Error (json_failed_prefix @ String_of_error error))
      | Inr data \<Rightarrow> Inr data)"

text \<open>\<open>GenericJsonReader.read\<close> has no \<open>try\<close>: what is raised inside it leaves as it is.\<close>

definition GenericJsonReader_read ::
  "(string \<Rightarrow> js_error + jsval) \<Rightarrow> string \<Rightarrow> (string \<Rightarrow> js_error + string) \<Rightarrow> js_error + jsval" where
  "GenericJsonReader_read JSON_parse path readFile =
     (case readFile path of
        Inl e \<Rightarrow> Inl e
      | Inr content \<Rightarrow>
          (case JSON_parse content of
             Inl e \<Rightarrow> Inl e
           | Inr data \<Rightarrow> Inr data))"

text \<open>A \<open>read()\<close> as \<open>load\<close> calls it: reading leaves the file system as it is.\<close>

definition reading :: "('w \<Rightarrow> js_error + jsval) \<Rightarrow> 'w \<Rightarrow> (js_error + jsval) \<times> 'w" where
  "reading rd w = (rd w, w)"

section \<open>DataAnalyzer: the working set as a value\<close>

text \<open>
  The methods of \<open>DataAnalyzer\<close> as functions from the working set \<open>this.data\<close> to the
  new working set (or to the value the method returns).
\<close>

definition filter_data :: "(dataRecord \<Rightarrow> bool) \<Rightarrow> dataset \<Rightarrow> dataset" where
  "filter_data predicate data = filter predicate data"

definition filterBy :: "string \<Rightarrow> jsval \<Rightarrow> dataset \<Rightarrow> dataset" where
  "filterBy field v data = filter (\<lambda>item. strict_eq (get item field) v) data"

text \<open>
  \<open>filterByRange\<close> type-checks only for a field of type \<open>number\<close>; on the values of
  such a field \<open>>=\<close> and \<open><=\<close> compare two numbers, and no other value is in range.
\<close>

definition filterByRange :: "string \<Rightarrow> rat \<Rightarrow> rat \<Rightarrow> dataset \<Rightarrow> dataset" where
  "filterByRange field lo hi data =
     filter (\<lambda>item. case get item field of JNum v \<Rightarrow> lo \<le> v \<and> v \<le> hi | _ \<Rightarrow> False) data"

subsection \<open>Sorting\<close>

text \<open>
  \<open>Array.prototype.sort(compareFn)\<close>. The sort consults the number \<open>v\<close> a call of
  the comparator returns only for its sign, and takes \<open>NaN\<close> for zero:
  \<open>comparison_sign v\<close> is a rational of the sign the sort sees (\<open>v\<close> itself when finite).
  ECMAScript requires a stable sort; when the comparator is consistent (a total preorder
  on the elements) the result is the one sorted stable rearrangement (lemma
  \<open>stable_sort_unique\<close>), and for any other comparator the order is left to the
  implementation. The model is the stable insertion sort: an element goes in front of
  the first later element that does not compare smaller than it.
\<close>

fun comparison_sign :: "number \<Rightarrow> rat" where
  "comparison_sign (Finite v) = v"
| "comparison_sign NaN = 0"
| "comparison_sign PosInfinity = 1"
| "comparison_sign NegInfinity = - 1"

fun insert_sorted :: "('a \<Rightarrow> 'a \<Rightarrow> rat) \<Rightarrow> 'a \<Rightarrow> 'a list \<Rightarrow> 'a list" where
  "insert_sorted rule x [] = [x]"
| "insert_sorted rule x (y # ys) =
     (if rule x y \<le> 0 then x # y # ys else y # insert_sorted rule x ys)"

definition stable_sort :: "('a \<Rightarrow> 'a \<Rightarrow> rat) \<Rightarrow> 'a list \<Rightarrow> 'a list" where
  "stable_sort rule xs = foldr (insert_sorted rule) xs []"

definition Array_sort :: "('a \<Rightarrow> 'a \<Rightarrow> number) \<Rightarrow> 'a list \<Rightarrow> 'a list" where
  "Array_sort compareFn xs = stable_sort (\<lambda>a b. comparison_sign (compareFn a b)) xs"

datatype SortOrder = ASC | DESC

text \<open>
  The comparator of \<open>sortBy\<close>. \<open>localeCompare\<close> stands for
  \<open>String.prototype.localeCompare(_, 'zh-CN')\<close>, the collation of the runtime.
\<close>

definition sortBy_compare ::
  "(rat \<Rightarrow> number) \<Rightarrow> (string \<Rightarrow> string \<Rightarrow> number) \<Rightarrow> string \<Rightarrow> SortOrder \<Rightarrow>
     dataRecord \<Rightarrow> dataRecord \<Rightarrow> number" where
  "sortBy_compare fl localeCompare field order a b =
     (case (get a field, get b field) of
        (JNumber aVal, JNumber bVal) \<Rightarrow>
          (if order = ASC then js_sub fl aVal bVal else js_sub fl bVal aVal)
      | (JStr aVal, JStr bVal) \<Rightarrow>
          (let comparison = localeCompare aVal bVal
           in if order = ASC then comparison else js_negate comparison)
      | _ \<Rightarrow> Finite 0)"

definition sort_data :: "(dataRecord \<Rightarrow> dataRecord \<Rightarrow> number) \<Rightarrow> dataset \<Rightarrow> dataset" where
  "sort_data compareFn data = Array_sort compareFn data"

definition sortBy ::
  "(rat \<Rightarrow> number) \<Rightarrow> (string \<Rightarrow> string \<Rightarrow> number) \<Rightarrow> string \<Rightarrow> SortOrder \<Rightarrow>
     dataset \<Rightarrow> dataset" where
  "sortBy fl localeCompare field order data =
     Array_sort (sortBy_compare fl localeCompare field order) data"

text \<open>
  The order \<open>sortBy\<close> sorts by: what the sort sees of the comparator's result.
\<close>

definition sortBy_rule ::
  "(rat \<Rightarrow> number) \<Rightarrow> (string \<Rightarrow> string \<Rightarrow> number) \<Rightarrow> string \<Rightarrow> SortOrder \<Rightarrow>
     dataRecord \<Rightarrow> dataRecord \<Rightarrow> rat" where
  "sortBy_rule fl localeCompare field order a b =
     comparison_sign (sortBy_compare fl localeCompare field order a b)"

text \<open>
  A comparator is consistent on a set of elements when exchanging its arguments
  exchanges the sign of the result and "does not compare greater" is transitive.
\<close>

definition consistent_on :: "('a \<Rightarrow> 'a \<Rightarrow> rat) \<Rightarrow> 'a set \<Rightarrow> bool" where
  "consistent_on rule S =
     (\<forall>a\<in>S. \<forall>b\<in>S. \<forall>c\<in>S.
        (rule a b < 0 \<longleftrightarrow> 0 < rule b a) \<and>
        (rule a b \<le> 0 \<and> rule b c \<le> 0 \<longrightarrow> rule a c \<le> 0))"

text \<open>
  Rounding to nearest is symmetric about zero: the opposite of a number rounds to the
  opposite of its rounding.
\<close>

definition symmetric_rounding :: "(rat \<Rightarrow> number) \<Rightarrow> bool" where
  "symmetric_rounding fl = (\<forall>q. fl (- q) = js_negate (fl q))"

subsection \<open>Aggregation\<close>

text \<open>
  The cast \<open>as number[]\<close> after the \<open>typeof\<close> filter: every value that reaches it is a
  number, \<open>NaN\<close> and the infinities among them (their \<open>typeof\<close> is \<open>number\<close>).
\<close>

fun number_value :: "jsval \<Rightarrow> number" where
  "number_value (JNumber n) = n"
| "number_value _ = NaN"

definition numeric_values :: "string \<Rightarrow> dataset \<Rightarrow> number list" where
  "numeric_values field data =
     map number_value
       (filter (\<lambda>val. typeof val = ''number'') (map (\<lambda>item. get item field) data))"

text \<open>
  \<open>Math.min(...values)\<close> and \<open>Math.max(...values)\<close>. The spread passes every element
  of the array as one argument of the call, and an engine raises a \<open>RangeError\<close> when
  a call has more arguments than its stack holds; that bound of the engine is the
  parameter \<open>argument_limit\<close>. Within the bound the result is \<open>NaN\<close> when an argument
  is \<open>NaN\<close> and the least (the greatest) argument otherwise; on no argument it is
  \<open>Infinity\<close> (\<open>-Infinity\<close>).
\<close>

definition Math_min :: "nat \<Rightarrow> number list \<Rightarrow> js_error + number" where
  "Math_min argument_limit values =
     (if argument_limit < length values then Inl RangeError
      else Inr (fold js_min values PosInfinity))"

definition Math_max :: "nat \<Rightarrow> number list \<Rightarrow> js_error + number" where
  "Math_max argument_limit values =
     (if argument_limit < length values then Inl RangeError
      else Inr (fold js_max values NegInfinity))"

text \<open>
  \<open>aggregate(field, operation)\<close>. The operation is the string it is at run time; the
  \<open>default\<close> branch of the \<open>switch\<close> is the last line. The sum is the left-to-right
  \<open>reduce\<close> from \<open>0\<close>, each addition rounded.
\<close>

definition aggregate ::
  "(rat \<Rightarrow> number) \<Rightarrow> nat \<Rightarrow> string \<Rightarrow> string \<Rightarrow> dataset \<Rightarrow> js_error + number" where
  "aggregate fl argument_limit field operation data =
     (let values = numeric_values field data
      in if length values = 0 then Inr (Finite 0)
         else if operation = ''sum'' then
           Inr (foldl (\<lambda>sum val. js_add fl sum val) (Finite 0) values)
         else if operation = ''avg'' then
           Inr (js_div_length fl (foldl (\<lambda>sum val. js_add fl sum val) (Finite 0) values)
                  (length values))
         else if operation = ''min'' then Math_min argument_limit values
         else if operation = ''max'' then Math_max argument_limit values
         else if operation = ''count'' then Inr (Finite (of_nat (length values)))
         else Inr (Finite 0))"

subsection \<open>Slicing\<close>

text \<open>
  \<open>ToIntegerOrInfinity\<close> on a finite number truncates towards zero.
  \<open>Array.prototype.slice(start, end)\<close>: a negative index counts from the end, both
  indices are clamped to the array, and an absent end index is the length.
\<close>

definition ToIntegerOrInfinity :: "rat \<Rightarrow> int" where
  "ToIntegerOrInfinity n = (if n < 0 then - \<lfloor>- n\<rfloor> else \<lfloor>n\<rfloor>)"

definition relative_index :: "int \<Rightarrow> int \<Rightarrow> int" where
  "relative_index len i = (if i < 0 then max (len + i) 0 else min i len)"

definition slice :: "rat \<Rightarrow> rat option \<Rightarrow> 'a list \<Rightarrow> 'a list" where
  "slice start endIndex xs =
     (let len = int (length xs);
          k = relative_index len (ToIntegerOrInfinity start);
          final = (case endIndex of
                     None \<Rightarrow> len
                   | Some e \<Rightarrow> relative_index len (ToIntegerOrInfinity e))
      in take (nat (final - k)) (drop (nat k) xs))"

definition limit :: "rat \<Rightarrow> dataset \<Rightarrow> dataset" where
  "limit n data = slice 0 (Some n) data"

definition skip :: "rat \<Rightarrow> dataset \<Rightarrow> dataset" where
  "skip n data = slice n None data"

subsection \<open>Grouping\<close>

text \<open>
  \<open>String(value)\<close>. \<open>numstr\<close> is the runtime's printing of a number. An array prints
  its elements joined by commas, \<open>null\<close> and \<open>undefined\<close> elements as the empty
  string; a plain object prints as \<open>[object Object]\<close>.
\<close>

fun join :: "string \<Rightarrow> string list \<Rightarrow> string" where
  "join sep [] = []"
| "join sep [s] = s"
| "join sep (s # t # ss) = s @ sep @ join sep (t # ss)"

fun String_of :: "(number \<Rightarrow> string) \<Rightarrow> jsval \<Rightarrow> string" where
  "String_of numstr JUndefined = ''undefined''"
| "String_of numstr JNull = ''null''"
| "String_of numstr (JBool b) = (if b then ''true'' else ''false'')"
| "String_of numstr (JNumber n) = numstr n"
| "String_of numstr (JStr s) = s"
| "String_of numstr (JArr xs) =
     join '','' (map (\<lambda>x. if x = JUndefined \<or> x = JNull then [] else String_of numstr x) xs)"
| "String_of numstr (JObj kvs) = ''[object Object]''"

text \<open>
  The accumulator of \<open>groupBy\<close> is the object literal \<open>{}\<close>, which inherits the members
  of \<open>Object.prototype\<close>. Its own properties are the groups; each of the names below
  reads as an inherited member (a function, or the prototype itself) while the object
  has no own property of that name.
\<close>

definition Object_prototype_keys :: "string list" where
  "Object_prototype_keys =
     [''constructor'', ''hasOwnProperty'', ''isPrototypeOf'', ''propertyIsEnumerable'',
      ''toLocaleString'', ''toString'', ''valueOf'', ''__proto__'',
      ''__defineGetter__'', ''__defineSetter__'', ''__lookupGetter__'', ''__lookupSetter__'']"

text \<open>
  One call of the reducer. The group exists: the item is pushed. No own property and no
  inherited member: the group is created empty, then the item is pushed. No own property
  but an inherited member: it is truthy, so no group is created, and it has no
  \<open>push\<close>, so the call \<open>groups[key].push(item)\<close> raises a \<open>TypeError\<close>.
\<close>

definition groupBy_step ::
  "(dataRecord \<Rightarrow> string) \<Rightarrow> (string \<rightharpoonup> dataset) \<Rightarrow> dataRecord \<Rightarrow> js_error + (string \<rightharpoonup> dataset)" where
  "groupBy_step key_of groups item =
     (let key = key_of item
      in case groups key of
           Some g \<Rightarrow> Inr (groups(key \<mapsto> g @ [item]))
         | None \<Rightarrow>
             if key \<in> set Object_prototype_keys then Inl TypeError
             else Inr (groups(key \<mapsto> [] @ [item])))"

text \<open>\<open>Array.prototype.reduce\<close> with a reducer that may raise.\<close>

fun reduce :: "('b \<Rightarrow> 'a \<Rightarrow> js_error + 'b) \<Rightarrow> 'b \<Rightarrow> 'a list \<Rightarrow> js_error + 'b" where
  "reduce f acc [] = Inr acc"
| "reduce f acc (x # xs) = (case f acc x of Inl e \<Rightarrow> Inl e | Inr acc' \<Rightarrow> reduce f acc' xs)"

definition groupBy :: "(number \<Rightarrow> string) \<Rightarrow> string \<Rightarrow> dataset \<Rightarrow> js_error + (string \<rightharpoonup> dataset)" where
  "groupBy numstr field data =
     reduce (groupBy_step (\<lambda>item. String_of numstr (get item field))) Map.empty data"

subsection \<open>Removing duplicates\<close>

text \<open>\<open>distinct()\<close>; \<open>stringify\<close> is \<open>JSON.stringify\<close> on a record.\<close>

fun distinct_from :: "(dataRecord \<Rightarrow> string) \<Rightarrow> string set \<Rightarrow> 'r list \<Rightarrow> ('r \<Rightarrow> dataRecord) \<Rightarrow> 'r list" where
  "distinct_from stringify seen [] deref = []"
| "distinct_from stringify seen (item # rest) deref =
     (let key = stringify (deref item)
      in if key \<in> seen then distinct_from stringify seen rest deref
         else item # distinct_from stringify (insert key seen) rest deref)"

definition distinct_data :: "(dataRecord \<Rightarrow> string) \<Rightarrow> dataset \<Rightarrow> dataset" where
  "distinct_data stringify data = distinct_from stringify {} data (\<lambda>item. item)"

section \<open>DataAnalyzer: the working set in the store\<close>

text \<open>
  Arrays and records are objects of the JavaScript heap. An array object holds references
  to record objects; \<open>this.data\<close> is a reference to an array object. The address of an
  array is its position in \<open>arrays\<close>, the reference of a record its position in
  \<open>records\<close>; a new array takes the next free address.
\<close>

record heap =
  arrays :: "nat list list"
  records :: "dataRecord list"

record DataAnalyzer =
  this_data :: nat

text \<open>The records an array holds, in order.\<close>

definition view :: "heap \<Rightarrow> nat \<Rightarrow> dataset" where
  "view h a = map (\<lambda>r. records h ! r) (arrays h ! a)"

definition alloc :: "heap \<Rightarrow> nat list \<Rightarrow> heap \<times> nat" where
  "alloc h xs = (h\<lparr>arrays := arrays h @ [xs]\<rparr>, length (arrays h))"

text \<open>
  \<open>this.data = e\<close> where \<open>e\<close> builds a new array from the references of the current
  one (\<open>[...data]\<close>, \<open>filter\<close>, \<open>slice\<close>), and \<open>this.data.sort(compareFn)\<close>, which
  rearranges the current array in place.
\<close>

definition assign_new :: "nat list \<Rightarrow> heap \<times> DataAnalyzer \<Rightarrow> heap \<times> DataAnalyzer" where
  "assign_new xs s = (case s of (h, this) \<Rightarrow>
     (case alloc h xs of (h', a) \<Rightarrow> (h', this\<lparr>this_data := a\<rparr>)))"

definition DataAnalyzer_new :: "heap \<Rightarrow> nat \<Rightarrow> heap \<times> DataAnalyzer" where
  "DataAnalyzer_new h dataArg =
     (case alloc h (arrays h ! dataArg) of (h', a) \<Rightarrow> (h', \<lparr>this_data = a\<rparr>))"

text \<open>
  The chainable methods; each returns \<open>this\<close>. The argument of \<open>reset\<close> is a
  reference to the caller's array.
\<close>

datatype method_call =
    Filter "dataRecord \<Rightarrow> bool"
  | FilterBy string jsval
  | FilterByRange string rat rat
  | Sort "dataRecord \<Rightarrow> dataRecord \<Rightarrow> number"
  | SortBy string SortOrder
  | Limit rat
  | Skip rat
  | Distinct
  | Reset nat

definition filter_in_store :: "(dataRecord \<Rightarrow> bool) \<Rightarrow> heap \<times> DataAnalyzer \<Rightarrow> heap \<times> DataAnalyzer" where
  "filter_in_store predicate s = (case s of (h, this) \<Rightarrow>
     assign_new (filter (\<lambda>r. predicate (records h ! r)) (arrays h ! this_data this)) s)"

definition sort_in_store ::
  "(dataRecord \<Rightarrow> dataRecord \<Rightarrow> number) \<Rightarrow> heap \<times> DataAnalyzer \<Rightarrow> heap \<times> DataAnalyzer" where
  "sort_in_store compareFn s = (case s of (h, this) \<Rightarrow>
     (h\<lparr>arrays := (arrays h)
          [this_data this :=
             Array_sort (\<lambda>a b. compareFn (records h ! a) (records h ! b))
               (arrays h ! this_data this)]\<rparr>,
      this))"

fun call ::
  "(rat \<Rightarrow> number) \<Rightarrow> (string \<Rightarrow> string \<Rightarrow> number) \<Rightarrow> (dataRecord \<Rightarrow> string) \<Rightarrow> method_call \<Rightarrow>
     heap \<times> DataAnalyzer \<Rightarrow> heap \<times> DataAnalyzer" where
  "call fl lc stringify (Filter predicate) s = filter_in_store predicate s"
| "call fl lc stringify (FilterBy field v) s =
     filter_in_store (\<lambda>item. strict_eq (get item field) v) s"
| "call fl lc stringify (FilterByRange field lo hi) s =
     filter_in_store (\<lambda>item. case get item field of JNum v \<Rightarrow> lo \<le> v \<and> v \<le> hi | _ \<Rightarrow> False) s"
| "call fl lc stringify (Sort compareFn) s = sort_in_store compareFn s"
| "call fl lc stringify (SortBy field order) s = sort_in_store (sortBy_compare fl lc field order) s"
| "call fl lc stringify (Limit n) s =
     assign_new (slice 0 (Some n) (arrays (fst s) ! this_data (snd s))) s"
| "call fl lc stringify (Skip n) s =
     assign_new (slice n None (arrays (fst s) ! this_data (snd s))) s"
| "call fl lc stringify Distinct s =
     assign_new (distinct_from stringify {} (arrays (fst s) ! this_data (snd s))
                   (\<lambda>r. records (fst s) ! r)) s"
| "call fl lc stringify (Reset newData) s = assign_new (arrays (fst s) ! newData) s"

text \<open>A chain \<open>analyzer.m1(...).m2(...)...\<close>.\<close>

definition chain ::
  "(rat \<Rightarrow> number) \<Rightarrow> (string \<Rightarrow> string \<Rightarrow> number) \<Rightarrow> (dataRecord \<Rightarrow> string) \<Rightarrow>
     method_call list \<Rightarrow> heap \<times> DataAnalyzer \<Rightarrow> heap \<times> DataAnalyzer" where
  "chain fl lc stringify calls s = fold (call fl lc stringify) calls s"

text \<open>
  What the caller can do to an array it holds (\<open>push\<close>, \<open>pop\<close>, \<open>splice\<close>, an
  assignment to an index or to \<open>length\<close>, \<open>sort\<close>, \<open>reverse\<close>): the array object
  holds another sequence of references afterwards.
\<close>

definition mutate_array :: "nat \<Rightarrow> nat list \<Rightarrow> heap \<Rightarrow> heap" where
  "mutate_array a xs h = h\<lparr>arrays := (arrays h)[a := xs]\<rparr>"

text \<open>An assignment to the fields of a record object.\<close>

definition mutate_record :: "nat \<Rightarrow> dataRecord \<Rightarrow> heap \<Rightarrow> heap" where
  "mutate_record r item h = h\<lparr>records := (records h)[r := item]\<rparr>"

text \<open>
  The analyzer owns the array \<open>this.data\<close> refers to when that array exists and was
  allocated at address \<open>L\<close> or later, that is after every array the caller held when
  the analyzer was constructed.
\<close>

definition owns :: "nat \<Rightarrow> heap \<times> DataAnalyzer \<Rightarrow> bool" where
  "owns L s = (L \<le> this_data (snd s) \<and> this_data (snd s) < length (arrays (fst s)))"

section \<open>Properties of the record validators\<close>

text \<open>An array index is written with digits only, so no field name is an index.\<close>

lemma all_of_Inr: "all_of (Inr b # rest) = (if b then all_of rest else Inr False)"
  by (cases b) simp_all

lemma index_text_digits: "c \<in> set (index_text n) \<Longrightarrow> (of_char c :: nat) < 58"
proof (induction n rule: index_text.induct)
  case (1 n)
  show ?case
  proof (cases "n < 10")
    case True
    with "1.prems" have "c = digit n"
      by (simp add: index_text.simps [of n])
    with True show ?thesis by (simp add: digit_def)
  next
    case False
    with "1.prems" have "c \<in> set (index_text (n div 10)) \<or> c = digit (n mod 10)"
      by (auto simp add: index_text.simps [of n])
    then show ?thesis
    proof
      assume "c \<in> set (index_text (n div 10))"
      with False "1.IH" show ?thesis by simp
    next
      assume "c = digit (n mod 10)"
      moreover have "48 + n mod 10 < 58" by simp
      ultimately show ?thesis by (simp add: digit_def)
    qed
  qed
qed

lemma index_of_key_letter:
  assumes "c \<in> set key" "58 \<le> (of_char c :: nat)"
  shows "index_of_key len key = None"
proof -
  have "index_text i \<noteq> key" for i
    using assms index_text_digits [of c i] by auto
  then show ?thesis
    by (simp add: index_of_key_def find_None_iff)
qed

text \<open>
  The validators of the readers: \<open>isSale\<close> of \<open>CsvReader\<close> and \<open>XmlReader\<close> never
  raises and accepts exactly the values that conform to the \<open>Sale\<close> shape; their
  \<open>validate\<close> rejects every value that is not an array and accepts the empty array.
\<close>

lemma field_check:
  "all_of (js_in key (JObj kvs) # typeof_prop (JObj kvs) key t # rest) =
     (if (case map_of kvs key of Some x \<Rightarrow> typeof x = t | None \<Rightarrow> False)
      then all_of rest else Inr False)"
proof (cases "map_of kvs key")
  case None
  then have "key \<notin> fst ` set kvs" by (simp add: map_of_eq_None_iff)
  with None show ?thesis by (simp add: all_of_Inr)
next
  case (Some x)
  then have "key \<in> fst ` set kvs" by (metis map_of_eq_None_iff option.distinct(1))
  with Some show ?thesis by (simp add: all_of_Inr typeof_prop_def get_def)
qed

lemma CsvReader_isSale_conforms: "CsvReader_isSale obj = Inr (conforms Sale_shape obj)"
proof (cases obj)
  case (JArr xs)
  have "index_of_key (length xs) ''id'' = None"
    by (rule index_of_key_letter [of "CHR ''i''"]) simp_all
  then show ?thesis
    using JArr by (simp add: CsvReader_isSale_def conforms_def Sale_shape_def all_of_Inr)
next
  case (JObj kvs)
  show ?thesis
    unfolding JObj CsvReader_isSale_def conforms_def Sale_shape_def
    by (simp add: all_of_Inr field_check del: js_in.simps)
qed (simp_all add: CsvReader_isSale_def conforms_def)

lemma validate_with_non_array: "\<not> Array_isArray data \<Longrightarrow> validate_with isShape data = Inr False"
  by (cases data) simp_all

lemma validate_with_empty: "validate_with isShape (JArr []) = Inr True"
  by simp

lemma all_of_map_Inr: "all_of (map (\<lambda>x. Inr (P x)) xs) = Inr (list_all P xs)"
  by (induction xs) (simp_all add: all_of_Inr)

lemma CsvReader_validate_conforms:
  "CsvReader_validate data =
     Inr (case data of JArr items \<Rightarrow> list_all (conforms Sale_shape) items | _ \<Rightarrow> False)"
proof (cases data)
  case (JArr items)
  have "all_of (map CsvReader_isSale items) = Inr (list_all (conforms Sale_shape) items)"
    using all_of_map_Inr [of "conforms Sale_shape" items]
    by (simp add: CsvReader_isSale_conforms [abs_def])
  then show ?thesis using JArr by (cases items) (simp_all add: CsvReader_validate_def)
qed (simp_all add: CsvReader_validate_def)

text \<open>
  The two type guards of \<open>utils/helpers.ts\<close> test the presence of three keys and
  nothing else.
\<close>

lemma isSale_keys:
  "isSale obj =
     Inr (case obj of
            JObj kvs \<Rightarrow> {''id'', ''product'', ''price''} \<subseteq> fst ` set kvs
          | _ \<Rightarrow> False)"
proof (cases obj)
  case (JArr xs)
  have "index_of_key (length xs) ''id'' = None"
    by (rule index_of_key_letter [of "CHR ''i''"]) simp_all
  then show ?thesis using JArr by (simp add: isSale_def all_of_Inr)
qed (simp_all add: isSale_def all_of_Inr)

lemma isUser_keys:
  "isUser obj =
     Inr (case obj of
            JObj kvs \<Rightarrow> {''id'', ''name'', ''email''} \<subseteq> fst ` set kvs
          | _ \<Rightarrow> False)"
proof (cases obj)
  case (JArr xs)
  have "index_of_key (length xs) ''id'' = None"
    by (rule index_of_key_letter [of "CHR ''i''"]) simp_all
  then show ?thesis using JArr by (simp add: isUser_def all_of_Inr)
qed (simp_all add: isUser_def all_of_Inr)

text \<open>
  \<open>isUser\<close> of \<open>JsonReader\<close> decides conformance to the \<open>User\<close> shape on an object,
  and raises on every value that is \<open>null\<close> or not of type \<open>object\<close>.
\<close>

lemma JsonReader_isUser_object:
  "JsonReader_isUser (JObj kvs) = Inr (conforms User_shape (JObj kvs))"
proof -
  have field: "all_of (all_of [js_in key (JObj kvs), Inr (typeof (get kvs key) = t)] # rest) =
     (if (case map_of kvs key of Some x \<Rightarrow> typeof x = t | None \<Rightarrow> False)
      then all_of rest else Inr False)" for key t rest
  proof (cases "map_of kvs key")
    case None
    then have "key \<notin> fst ` set kvs" by (simp add: map_of_eq_None_iff)
    with None show ?thesis by (simp add: all_of_Inr)
  next
    case (Some x)
    then have "key \<in> fst ` set kvs" by (metis map_of_eq_None_iff option.distinct(1))
    with Some show ?thesis by (simp add: all_of_Inr get_def)
  qed
  show ?thesis
    unfolding JsonReader_isUser_def JsonReader_requiredFields_def JsonReader_types_def
      conforms_def User_shape_def
    by (simp add: field del: js_in.simps)
qed

lemma JsonReader_isUser_raises:
  "typeof v \<noteq> ''object'' \<or> v = JNull \<Longrightarrow> JsonReader_isUser v = Inl TypeError"
  by (cases v) (simp_all add: JsonReader_isUser_def JsonReader_requiredFields_def)

text \<open>
  C3: every validator of a recognized shape returns true exactly on the non-null objects
  that have every required field of the shape with the declared type, and never raises.
  The reader validators do (\<open>CsvReader_isSale_conforms\<close>), but \<open>isSale\<close> of
  \<open>utils/helpers.ts\<close> only tests that three of the six keys are present: it accepts
  \<open>{id: "1", product: 2, price: "x"}\<close>, which the reader's \<open>isSale\<close> rejects. And
  \<open>isUser\<close> of \<open>JsonReader\<close> applies \<open>in\<close> to a value it has not tested to be an
  object, so it raises on \<open>null\<close>, and \<open>validate\<close> with it.
\<close>

theorem helpers_isSale_accepts_ill_typed:
  "isSale (JObj [(''id'', JStr ''1''), (''product'', JNum 2), (''price'', JStr ''x'')]) = Inr True
   \<and> \<not> conforms Sale_shape (JObj [(''id'', JStr ''1''), (''product'', JNum 2), (''price'', JStr ''x'')])
   \<and> CsvReader_isSale (JObj [(''id'', JStr ''1''), (''product'', JNum 2), (''price'', JStr ''x'')]) = Inr False
   \<and> JsonReader_isUser JNull = Inl TypeError
   \<and> JsonReader_validate (JArr [JNull]) = Inl TypeError"
  by (simp add: isSale_def conforms_def Sale_shape_def CsvReader_isSale_conforms
      JsonReader_validate_def JsonReader_isUser_def JsonReader_requiredFields_def)

section \<open>Properties of the record sources\<close>

subsection \<open>File type detection\<close>

text \<open>
  The extension is what follows the last dot of the path. \<open>detectFileType\<close> of
  \<open>utils/helpers.ts\<close> maps \<open>csv\<close>, \<open>json\<close> and \<open>xml\<close>, in any case of the
  letters, to their kinds; the private method of \<open>DataSource\<close> has no \<open>xml\<close> case.
  \<open>getFileInfo\<close> returns what the constructor stored.
\<close>

lemma split_from_no_sep: "sep \<notin> set s \<Longrightarrow> split_from sep cur s = [cur @ s]"
  by (induction s arbitrary: cur) auto

lemma split_from_not_Nil: "split_from sep cur s \<noteq> []"
  by (induction s arbitrary: cur) simp_all

lemma last_split_from:
  "sep \<notin> set ext \<Longrightarrow> last (split_from sep cur (base @ sep # ext)) = ext"
  by (induction base arbitrary: cur) (simp_all add: split_from_no_sep split_from_not_Nil)

lemma extension_of_path:
  "CHR ''.'' \<notin> set ext \<Longrightarrow>
     map_option toLowerCase (Array_pop (String_split (CHR ''.'') (base @ ''.'' @ ext))) =
       Some (toLowerCase ext)"
  by (simp add: Array_pop_def String_split_def split_from_not_Nil last_split_from)

lemma detectFileType_extension:
  assumes "CHR ''.'' \<notin> set ext"
  shows "detectFileType (base @ ''.'' @ ext) =
     (if toLowerCase ext = ''csv'' then CSV
      else if toLowerCase ext = ''json'' then JSON
      else if toLowerCase ext = ''xml'' then XML
      else UNKNOWN)"
  unfolding detectFileType_def extension_of_path [OF assms] by simp

lemma DataSource_detectFileType_extension:
  assumes "CHR ''.'' \<notin> set ext"
  shows "DataSource_detectFileType (base @ ''.'' @ ext) =
     (if toLowerCase ext = ''csv'' then CSV
      else if toLowerCase ext = ''json'' then JSON
      else UNKNOWN)"
  unfolding DataSource_detectFileType_def extension_of_path [OF assms] by simp

lemma getFileInfo_cached:
  "getFileInfo (DataSource_new path) = (path, DataSource_detectFileType path)"
  by (simp add: getFileInfo_def DataSource_new_def)

text \<open>
  C4: for every origin path the kind kept by the record source is the one of the
  extension, \<open>.xml\<close> giving XML. The constructor of \<open>DataSource\<close> computes the kind
  with its private \<open>detectFileType\<close>, whose \<open>switch\<close> has no \<open>xml\<close> case: a source
  constructed on \<open>data/sales.xml\<close> reports UNKNOWN, where the helper of the same name
  answers XML. \<open>XmlReader\<close> overwrites the kind with XML whatever the path is.
\<close>

theorem DataSource_detectFileType_misses_xml:
  "DataSource_detectFileType ''data/sales.xml'' = UNKNOWN
   \<and> getFileInfo (DataSource_new ''data/sales.xml'') = (''data/sales.xml'', UNKNOWN)
   \<and> detectFileType ''data/sales.xml'' = XML
   \<and> getFileInfo (XmlReader_new ''data/sales.csv'') = (''data/sales.csv'', XML)"
  by (simp add: DataSource_detectFileType_def detectFileType_def String_split_def Array_pop_def
      toLowerCase_def getFileInfo_def DataSource_new_def XmlReader_new_def)

subsection \<open>Loading\<close>

text \<open>
  C2, as the code has it: \<open>load()\<close> calls \<open>read()\<close> and then \<open>validate\<close> on what
  \<open>read\<close> returned. An error raised by \<open>read\<close>, or by \<open>validate\<close>, is the error of
  \<open>load\<close>; when \<open>validate\<close> returns false, \<open>load\<close> fails with an \<open>Error\<close> whose
  message is the fixed text "data format validation failed" and returns no data; when
  \<open>validate\<close> returns true, \<open>load\<close> returns the dataset \<open>read\<close> produced, unchanged.
\<close>

theorem load_protocol:
  "(read w = (Inl e, w') \<longrightarrow> load read validate w = (Inl e, w'))
   \<and> (read w = (Inr data, w') \<and> validate data = Inl e \<longrightarrow>
        load read validate w = (Inl e, w'))
   \<and> (read w = (Inr data, w') \<and> validate data = Inr False \<longrightarrow>
        load read validate w = (Inl (Error validation_failed_message), w'))
   \<and> (read w = (Inr data, w') \<and> validate data = Inr True \<longrightarrow>
        load read validate w = (Inr data, w'))"
  by (simp add: load_def)

text \<open>
  A file that cannot be read, an element on which \<open>isUser\<close> raises, a record without
  its required fields, and a well-formed record.
\<close>

theorem load_protocol_witness:
  "load (reading (JsonReader_read (\<lambda>content. Inr (JArr [])) ''users.json''))
       JsonReader_validate (\<lambda>path. Inl (External ''ENOENT'')) =
     (Inl (Error (json_failed_prefix @ ''ENOENT'')), \<lambda>path. Inl (External ''ENOENT''))
   \<and> load (reading (\<lambda>w. Inr (JArr [JNull]))) JsonReader_validate () = (Inl TypeError, ())
   \<and> load (reading (\<lambda>w. Inr (JArr [JObj [(''id'', JNum 1), (''product'', JStr ''tv'')]])))
       CsvReader_validate () = (Inl (Error validation_failed_message), ())
   \<and> load (reading (\<lambda>w. Inr (JArr
         [JObj [(''id'', JNum 1), (''product'', JStr ''tv''), (''category'', JStr ''e''),
                (''price'', JNum 300), (''quantity'', JNum 2), (''date'', JStr ''2024-01-01'')]])))
       CsvReader_validate () =
     (Inr (JArr
         [JObj [(''id'', JNum 1), (''product'', JStr ''tv''), (''category'', JStr ''e''),
                (''price'', JNum 300), (''quantity'', JNum 2), (''date'', JStr ''2024-01-01'')]]), ())"
proof -
  let ?sale = "JObj [(''id'', JNum 1), (''product'', JStr ''tv''), (''category'', JStr ''e''),
                (''price'', JNum 300), (''quantity'', JNum 2), (''date'', JStr ''2024-01-01'')]"
  let ?fs = "\<lambda>path :: string. Inl (External ''ENOENT'') :: js_error + string"
  have r1: "reading (JsonReader_read (\<lambda>content. Inr (JArr [])) ''users.json'') ?fs =
      (Inl (Error (json_failed_prefix @ ''ENOENT'')), ?fs)"
    by (simp add: reading_def JsonReader_read_def)
  have r2: "reading (\<lambda>w. Inr (JArr [JNull])) () = (Inr (JArr [JNull]), ())"
    and v2: "JsonReader_validate (JArr [JNull]) = Inl TypeError"
    by (simp_all add: reading_def JsonReader_validate_def JsonReader_isUser_def
        JsonReader_requiredFields_def)
  have r3: "reading (\<lambda>w. Inr (JArr [JObj [(''id'', JNum 1), (''product'', JStr ''tv'')]])) () =
      (Inr (JArr [JObj [(''id'', JNum 1), (''product'', JStr ''tv'')]]), ())"
    and v3: "CsvReader_validate (JArr [JObj [(''id'', JNum 1), (''product'', JStr ''tv'')]]) = Inr False"
    by (simp_all add: reading_def CsvReader_validate_conforms conforms_def Sale_shape_def)
  have r4: "reading (\<lambda>w. Inr (JArr [?sale])) () = (Inr (JArr [?sale]), ())"
    and v4: "CsvReader_validate (JArr [?sale]) = Inr True"
    by (simp_all add: reading_def CsvReader_validate_conforms conforms_def Sale_shape_def)
  note c1 = load_protocol [where read = "reading (JsonReader_read (\<lambda>content. Inr (JArr [])) ''users.json'')"
      and w = ?fs and validate = JsonReader_validate, THEN conjunct1, THEN mp, OF r1]
  note c2 = load_protocol [where read = "reading (\<lambda>w. Inr (JArr [JNull]))" and w = "()"
      and validate = JsonReader_validate, THEN conjunct2, THEN conjunct1, THEN mp,
      OF conjI [OF r2 v2]]
  note c3 = load_protocol [where read = "reading (\<lambda>w. Inr (JArr [JObj [(''id'', JNum 1), (''product'', JStr ''tv'')]]))"
      and w = "()" and validate = CsvReader_validate,
      THEN conjunct2, THEN conjunct2, THEN conjunct1, THEN mp, OF conjI [OF r3 v3]]
  note c4 = load_protocol [where read = "reading (\<lambda>w. Inr (JArr [?sale]))" and w = "()"
      and validate = CsvReader_validate,
      THEN conjunct2, THEN conjunct2, THEN conjunct2, THEN mp, OF conjI [OF r4 v4]]
  from c1 c2 c3 c4 show ?thesis by (intro conjI)
qed

text \<open>
  The claim as stated fails: the error of a failed validation is the same plain
  \<open>Error\<close> for one record and for two, and for the \<open>Sale\<close> and the \<open>User\<close> shape. It
  names neither the shape nor the number of records.
\<close>

theorem load_failure_is_plain_Error:
  "fst (load (reading (\<lambda>w. Inr (JArr [JNull]))) CsvReader_validate ()) =
     Inl (Error validation_failed_message)
   \<and> fst (load (reading (\<lambda>w. Inr (JArr [JNull, JNull]))) CsvReader_validate ()) =
     Inl (Error validation_failed_message)
   \<and> fst (load (reading (\<lambda>w. Inr (JArr [JObj []]))) JsonReader_validate ()) =
     Inl (Error validation_failed_message)"
  by (simp add: load_def reading_def CsvReader_validate_conforms conforms_def
      JsonReader_validate_def JsonReader_isUser_def JsonReader_requiredFields_def)

subsection \<open>Reading\<close>

text \<open>
  The loop of \<open>XmlReader.read\<close> keeps the elements that conform to the \<open>Sale\<close> shape,
  in order; the property names it reads are no indices.
\<close>

lemma forEach_push_filter:
  "forEach_push data items = Inr (data @ filter (conforms Sale_shape) items)"
  by (induction items arbitrary: data)
    (simp_all add: XmlReader_isSale_def CsvReader_isSale_conforms)

lemma get_prop_letters:
  assumes "c \<in> set key" "58 \<le> (of_char c :: nat)" "key \<noteq> ''length''"
  shows "get_prop v key =
     (case v of JUndefined \<Rightarrow> Inl TypeError | JNull \<Rightarrow> Inl TypeError
      | JObj kvs \<Rightarrow> Inr (get kvs key) | _ \<Rightarrow> Inr JUndefined)"
  using assms by (cases v) (simp_all add: index_of_key_letter [of c])

lemma get_prop_sales:
  "get_prop v ''sales'' =
     (case v of JUndefined \<Rightarrow> Inl TypeError | JNull \<Rightarrow> Inl TypeError
      | JObj kvs \<Rightarrow> Inr (get kvs ''sales'') | _ \<Rightarrow> Inr JUndefined)"
  by (rule get_prop_letters [of "CHR ''s''"]) simp_all

lemma get_prop_sale:
  "get_prop v ''sale'' =
     (case v of JUndefined \<Rightarrow> Inl TypeError | JNull \<Rightarrow> Inl TypeError
      | JObj kvs \<Rightarrow> Inr (get kvs ''sale'') | _ \<Rightarrow> Inr JUndefined)"
  by (rule get_prop_letters [of "CHR ''s''"]) simp_all

lemma XmlReader_collect_sale_elements:
  "XmlReader_collect jsonObj = Inr (JArr (filter (conforms Sale_shape) (sale_elements jsonObj)))"
proof (cases jsonObj)
  case (JObj document)
  show ?thesis
  proof (cases "get document ''sales''")
    case sales: (JObj sales)
    show ?thesis
      by (cases "get sales ''sale''")
        (simp_all add: JObj sales XmlReader_collect_def sale_elements_def get_prop_sale
          forEach_push_filter)
  qed (simp_all add: JObj XmlReader_collect_def sale_elements_def get_prop_sale)
qed (simp_all add: XmlReader_collect_def sale_elements_def get_prop_sales)

text \<open>
  C8, as the code has it. \<open>read()\<close> fails exactly when the file cannot be read or the
  parser fails: in \<open>XmlReader\<close>, \<open>CsvReader\<close> and \<open>JsonReader\<close> with an \<open>Error\<close>
  whose message is a fixed prefix followed by the text of the underlying failure, in
  \<open>GenericJsonReader\<close> with the underlying failure itself. Otherwise
  \<open>XmlReader.read\<close> returns the elements at \<open>sales.sale\<close> that conform to the
  \<open>Sale\<close> shape, in document order (the other elements are left out, and nothing is
  raised for them); \<open>CsvReader.read\<close> returns one record for every line after the first
  of the trimmed content, whatever the line holds: with the cells of the line (its parts
  between commas, trimmed) numbered from 0, \<open>id\<close>, \<open>price\<close> and \<open>quantity\<close> are
  \<open>Number\<close> of the cells 0, 3 and 4, and \<open>product\<close>, \<open>category\<close> and \<open>date\<close> are
  the cells 1, 2 and 5, a cell the line does not have being \<open>undefined\<close>; and
  \<open>JsonReader.read\<close> and \<open>GenericJsonReader.read\<close> return the value the JSON parser
  produced, whatever it is.
\<close>

theorem read_outcomes:
  "(readFile path = Inl e \<longrightarrow>
      XmlReader_read parse path readFile = Inl (Error (xml_failed_prefix @ String_of_error e)))
   \<and> (readFile path = Inr content \<and> parse content = Inl e \<longrightarrow>
      XmlReader_read parse path readFile = Inl (Error (xml_failed_prefix @ String_of_error e)))
   \<and> (readFile path = Inr content \<and> parse content = Inr jsonObj \<longrightarrow>
      XmlReader_read parse path readFile =
        Inr (JArr (filter (conforms Sale_shape) (sale_elements jsonObj))))
   \<and> (readFile path = Inl e \<longrightarrow>
      CsvReader_read Number path readFile = Inl (Error (csv_failed_prefix @ String_of_error e)))
   \<and> (readFile path = Inr content \<longrightarrow>
      (\<exists>items. CsvReader_read Number path readFile = Inr (JArr items)
         \<and> length items = length (String_split (CHR 0x0A) (trim content)) - 1
         \<and> (\<forall>i. i < length items \<longrightarrow>
               (\<exists>cells. cells = map trim (String_split (CHR '','')
                                     (String_split (CHR 0x0A) (trim content) ! (i + 1)))
                  \<and> items ! i =
                      JObj [(''id'', Number (if 0 < length cells then JStr (cells ! 0) else JUndefined)),
                            (''product'', if 1 < length cells then JStr (cells ! 1) else JUndefined),
                            (''category'', if 2 < length cells then JStr (cells ! 2) else JUndefined),
                            (''price'', Number (if 3 < length cells then JStr (cells ! 3) else JUndefined)),
                            (''quantity'', Number (if 4 < length cells then JStr (cells ! 4) else JUndefined)),
                            (''date'', if 5 < length cells then JStr (cells ! 5) else JUndefined)]))))
   \<and> (readFile path = Inl e \<longrightarrow>
      JsonReader_read JSON_parse path readFile =
        Inl (Error (json_failed_prefix @ String_of_error e)))
   \<and> (readFile path = Inr content \<and> JSON_parse content = Inl e \<longrightarrow>
      JsonReader_read JSON_parse path readFile =
        Inl (Error (json_failed_prefix @ String_of_error e)))
   \<and> (readFile path = Inr content \<and> JSON_parse content = Inr parsed \<longrightarrow>
      JsonReader_read JSON_parse path readFile = Inr parsed)
   \<and> (readFile path = Inl e \<longrightarrow> GenericJsonReader_read JSON_parse path readFile = Inl e)
   \<and> (readFile path = Inr content \<and> JSON_parse content = Inl e \<longrightarrow>
      GenericJsonReader_read JSON_parse path readFile = Inl e)
   \<and> (readFile path = Inr content \<and> JSON_parse content = Inr parsed \<longrightarrow>
      GenericJsonReader_read JSON_parse path readFile = Inr parsed)"
proof -
  have xml1: "readFile path = Inl e \<longrightarrow>
      XmlReader_read parse path readFile = Inl (Error (xml_failed_prefix @ String_of_error e))"
    by (simp add: XmlReader_read_def)
  have xml2: "readFile path = Inr content \<and> parse content = Inl e \<longrightarrow>
      XmlReader_read parse path readFile = Inl (Error (xml_failed_prefix @ String_of_error e))"
    by (simp add: XmlReader_read_def)
  have xml3: "readFile path = Inr content \<and> parse content = Inr jsonObj \<longrightarrow>
      XmlReader_read parse path readFile =
        Inr (JArr (filter (conforms Sale_shape) (sale_elements jsonObj)))"
    by (simp add: XmlReader_read_def XmlReader_collect_sale_elements)
  have csv1: "readFile path = Inl e \<longrightarrow>
      CsvReader_read Number path readFile = Inl (Error (csv_failed_prefix @ String_of_error e))"
    by (simp add: CsvReader_read_def)
  have csv2: "readFile path = Inr content \<longrightarrow>
      (\<exists>items. CsvReader_read Number path readFile = Inr (JArr items)
         \<and> length items = length (String_split (CHR 0x0A) (trim content)) - 1
         \<and> (\<forall>i. i < length items \<longrightarrow>
               (\<exists>cells. cells = map trim (String_split (CHR '','')
                                     (String_split (CHR 0x0A) (trim content) ! (i + 1)))
                  \<and> items ! i =
                      JObj [(''id'', Number (if 0 < length cells then JStr (cells ! 0) else JUndefined)),
                            (''product'', if 1 < length cells then JStr (cells ! 1) else JUndefined),
                            (''category'', if 2 < length cells then JStr (cells ! 2) else JUndefined),
                            (''price'', Number (if 3 < length cells then JStr (cells ! 3) else JUndefined)),
                            (''quantity'', Number (if 4 < length cells then JStr (cells ! 4) else JUndefined)),
                            (''date'', if 5 < length cells then JStr (cells ! 5) else JUndefined)])))"
    by (simp add: CsvReader_read_def Let_def sale_of_line_def value_at_def)
  have json1: "readFile path = Inl e \<longrightarrow>
      JsonReader_read JSON_parse path readFile =
        Inl (Error (json_failed_prefix @ String_of_error e))"
    by (simp add: JsonReader_read_def)
  have json2: "readFile path = Inr content \<and> JSON_parse content = Inl e \<longrightarrow>
      JsonReader_read JSON_parse path readFile =
        Inl (Error (json_failed_prefix @ String_of_error e))"
    by (simp add: JsonReader_read_def)
  have json3: "readFile path = Inr content \<and> JSON_parse content = Inr parsed \<longrightarrow>
      JsonReader_read JSON_parse path readFile = Inr parsed"
    by (simp add: JsonReader_read_def)
  have generic1: "readFile path = Inl e \<longrightarrow> GenericJsonReader_read JSON_parse path readFile = Inl e"
    by (simp add: GenericJsonReader_read_def)
  have generic2: "readFile path = Inr content \<and> JSON_parse content = Inl e \<longrightarrow>
      GenericJsonReader_read JSON_parse path readFile = Inl e"
    by (simp add: GenericJsonReader_read_def)
  have generic3: "readFile path = Inr content \<and> JSON_parse content = Inr parsed \<longrightarrow>
      GenericJsonReader_read JSON_parse path readFile = Inr parsed"
    by (simp add: GenericJsonReader_read_def)
  from xml1 xml2 xml3 csv1 csv2 json1 json2 json3 generic1 generic2 generic3
  show ?thesis by (intro conjI)
qed

text \<open>
  A missing file, a parser failure, a document with a single \<open>sale\<close> element, a CSV
  file of a header and two lines that ends with a line feed and an ideographic space
  (U+3000), and a JSON file that holds a number.
\<close>

theorem read_outcomes_witness:
  "XmlReader_read (\<lambda>content. Inr (JObj [])) ''sales.xml'' (\<lambda>path. Inl (External ''ENOENT'')) =
     Inl (Error (xml_failed_prefix @ ''ENOENT''))
   \<and> XmlReader_read (\<lambda>content. Inl (External ''Unclosed tag'')) ''sales.xml''
        (\<lambda>path. Inr ''<sales>'') =
     Inl (Error (xml_failed_prefix @ ''Unclosed tag''))
   \<and> XmlReader_read
        (\<lambda>content. Inr (JObj [(''sales'', JObj [(''sale'',
           JObj [(''id'', JNum 1), (''product'', JStr ''tv''), (''category'', JStr ''e''),
                 (''price'', JNum 300), (''quantity'', JNum 2), (''date'', JStr ''2024-01-01'')])])]))
        ''sales.xml'' (\<lambda>path. Inr ''<sales/>'') =
     Inr (JArr [JObj [(''id'', JNum 1), (''product'', JStr ''tv''), (''category'', JStr ''e''),
                 (''price'', JNum 300), (''quantity'', JNum 2), (''date'', JStr ''2024-01-01'')]])
   \<and> CsvReader_read (\<lambda>v. v) ''sales.csv'' (\<lambda>path. Inl (External ''ENOENT'')) =
     Inl (Error (csv_failed_prefix @ ''ENOENT''))
   \<and> (\<exists>items. CsvReader_read (\<lambda>v. v) ''sales.csv''
          (\<lambda>path. Inr (''id,product'' @ [CHR 0x0A] @ ''1, tv'' @ [CHR 0x0A] @ ''2,radio'' @
                        [CHR 0x0A, CHR 0xE3, CHR 0x80, CHR 0x80])) =
        Inr (JArr items) \<and> length items = 2
        \<and> items ! 0 = JObj [(''id'', JStr ''1''), (''product'', JStr ''tv''),
                            (''category'', JUndefined), (''price'', JUndefined),
                            (''quantity'', JUndefined), (''date'', JUndefined)]
        \<and> items ! 1 = JObj [(''id'', JStr ''2''), (''product'', JStr ''radio''),
                            (''category'', JUndefined), (''price'', JUndefined),
                            (''quantity'', JUndefined), (''date'', JUndefined)])
   \<and> JsonReader_read (\<lambda>content. Inr (JNum 5)) ''users.json'' (\<lambda>path. Inl (External ''ENOENT'')) =
     Inl (Error (json_failed_prefix @ ''ENOENT''))
   \<and> JsonReader_read (\<lambda>content. Inl (External ''SyntaxError'')) ''users.json'' (\<lambda>path. Inr ''['') =
     Inl (Error (json_failed_prefix @ ''SyntaxError''))
   \<and> JsonReader_read (\<lambda>content. Inr (JNum 5)) ''users.json'' (\<lambda>path. Inr ''5'') = Inr (JNum 5)
   \<and> GenericJsonReader_read (\<lambda>content. Inr (JNum 5)) ''users.json''
        (\<lambda>path. Inl (External ''ENOENT'')) = Inl (External ''ENOENT'')
   \<and> GenericJsonReader_read (\<lambda>content. Inl (External ''SyntaxError'')) ''users.json''
        (\<lambda>path. Inr ''['') = Inl (External ''SyntaxError'')
   \<and> GenericJsonReader_read (\<lambda>content. Inr (JNum 5)) ''users.json'' (\<lambda>path. Inr ''5'') =
     Inr (JNum 5)"
proof -
  let ?sale = "JObj [(''id'', JNum 1), (''product'', JStr ''tv''), (''category'', JStr ''e''),
                 (''price'', JNum 300), (''quantity'', JNum 2), (''date'', JStr ''2024-01-01'')]"
  let ?doc = "JObj [(''sales'', JObj [(''sale'', ?sale)])]"
  let ?csv = "''id,product'' @ [CHR 0x0A] @ ''1, tv'' @ [CHR 0x0A] @ ''2,radio'' @
                [CHR 0x0A, CHR 0xE3, CHR 0x80, CHR 0x80]"
  have s: "filter (conforms Sale_shape) (sale_elements ?doc) = [?sale]"
    by (simp add: sale_elements_def get_def conforms_def Sale_shape_def)
  have l: "String_split (CHR 0x0A) (trim ?csv) = [''id,product'', ''1, tv'', ''2,radio'']"
    by code_simp
  have cells1: "map trim (String_split (CHR '','') ''1, tv'') = [''1'', ''tv'']"
    by code_simp
  have cells2: "map trim (String_split (CHR '','') ''2,radio'') = [''2'', ''radio'']"
    by code_simp
  note c1 = read_outcomes [where readFile = "\<lambda>path. Inl (External ''ENOENT'')"
      and path = "''sales.xml''" and parse = "\<lambda>content. Inr (JObj [])",
      THEN conjunct1, THEN mp, OF refl]
  note c2 = read_outcomes [where readFile = "\<lambda>path. Inr ''<sales>''" and path = "''sales.xml''"
      and parse = "\<lambda>content. Inl (External ''Unclosed tag'')",
      THEN conjunct2, THEN conjunct1, THEN mp, OF conjI [OF refl refl]]
  note c3 = read_outcomes [where readFile = "\<lambda>path. Inr ''<sales/>''" and path = "''sales.xml''"
      and parse = "\<lambda>content. Inr ?doc",
      THEN conjunct2, THEN conjunct2, THEN conjunct1, THEN mp, OF conjI [OF refl refl]]
  note c4 = read_outcomes [where readFile = "\<lambda>path. Inl (External ''ENOENT'')"
      and path = "''sales.csv''" and Number = "\<lambda>v. v",
      THEN conjunct2, THEN conjunct2, THEN conjunct2, THEN conjunct1, THEN mp, OF refl]
  note c5 = read_outcomes [where readFile = "\<lambda>path. Inr ?csv" and path = "''sales.csv''"
      and Number = "\<lambda>v. v",
      THEN conjunct2, THEN conjunct2, THEN conjunct2, THEN conjunct2, THEN conjunct1,
      THEN mp, OF refl]
  note rest = conjunct2 [OF conjunct2 [OF conjunct2 [OF conjunct2 [OF conjunct2]]]]
  note c6 = read_outcomes [where readFile = "\<lambda>path. Inl (External ''ENOENT'')"
      and path = "''users.json''" and JSON_parse = "\<lambda>content. Inr (JNum 5)",
      THEN rest, THEN conjunct1, THEN mp, OF refl]
  note c7 = read_outcomes [where readFile = "\<lambda>path. Inr ''[''" and path = "''users.json''"
      and JSON_parse = "\<lambda>content. Inl (External ''SyntaxError'')",
      THEN rest, THEN conjunct2, THEN conjunct1, THEN mp, OF conjI [OF refl refl]]
  note c8 = read_outcomes [where readFile = "\<lambda>path. Inr ''5''" and path = "''users.json''"
      and JSON_parse = "\<lambda>content. Inr (JNum 5)",
      THEN rest, THEN conjunct2, THEN conjunct2, THEN conjunct1, THEN mp, OF conjI [OF refl refl]]
  note c9 = read_outcomes [where readFile = "\<lambda>path. Inl (External ''ENOENT'')"
      and path = "''users.json''" and JSON_parse = "\<lambda>content. Inr (JNum 5)",
      THEN rest, THEN conjunct2, THEN conjunct2, THEN conjunct2, THEN conjunct1, THEN mp, OF refl]
  note c10 = read_outcomes [where readFile = "\<lambda>path. Inr ''[''" and path = "''users.json''"
      and JSON_parse = "\<lambda>content. Inl (External ''SyntaxError'')",
      THEN rest, THEN conjunct2, THEN conjunct2, THEN conjunct2, THEN conjunct2, THEN conjunct1,
      THEN mp, OF conjI [OF refl refl]]
  note c11 = read_outcomes [where readFile = "\<lambda>path. Inr ''5''" and path = "''users.json''"
      and JSON_parse = "\<lambda>content. Inr (JNum 5)",
      THEN rest, THEN conjunct2, THEN conjunct2, THEN conjunct2, THEN conjunct2, THEN conjunct2,
      THEN mp, OF conjI [OF refl refl]]
  have c3': "XmlReader_read (\<lambda>content. Inr ?doc) ''sales.xml'' (\<lambda>path. Inr ''<sales/>'') =
      Inr (JArr [?sale])"
    using c3 by (simp only: s)
  obtain items where items:
    "CsvReader_read (\<lambda>v. v) ''sales.csv'' (\<lambda>path. Inr ?csv) = Inr (JArr items)"
    "length items = length (String_split (CHR 0x0A) (trim ?csv)) - 1"
    "\<forall>i. i < length items \<longrightarrow>
       (\<exists>cells. cells = map trim (String_split (CHR '','')
                             (String_split (CHR 0x0A) (trim ?csv) ! (i + 1)))
          \<and> items ! i =
              JObj [(''id'', if 0 < length cells then JStr (cells ! 0) else JUndefined),
                    (''product'', if 1 < length cells then JStr (cells ! 1) else JUndefined),
                    (''category'', if 2 < length cells then JStr (cells ! 2) else JUndefined),
                    (''price'', if 3 < length cells then JStr (cells ! 3) else JUndefined),
                    (''quantity'', if 4 < length cells then JStr (cells ! 4) else JUndefined),
                    (''date'', if 5 < length cells then JStr (cells ! 5) else JUndefined)])"
    using c5 by blast
  have n: "length items = 2"
    using items(2) unfolding l by simp
  have i0: "items ! 0 = JObj [(''id'', JStr ''1''), (''product'', JStr ''tv''),
                            (''category'', JUndefined), (''price'', JUndefined),
                            (''quantity'', JUndefined), (''date'', JUndefined)]"
    using items(3) [rule_format, of 0] n unfolding l by (simp add: cells1)
  have i1: "items ! 1 = JObj [(''id'', JStr ''2''), (''product'', JStr ''radio''),
                            (''category'', JUndefined), (''price'', JUndefined),
                            (''quantity'', JUndefined), (''date'', JUndefined)]"
    using items(3) [rule_format, of 1] n unfolding l by (simp add: cells2)
  have c5': "\<exists>items. CsvReader_read (\<lambda>v. v) ''sales.csv'' (\<lambda>path. Inr ?csv) = Inr (JArr items)
      \<and> length items = 2
      \<and> items ! 0 = JObj [(''id'', JStr ''1''), (''product'', JStr ''tv''),
                            (''category'', JUndefined), (''price'', JUndefined),
                            (''quantity'', JUndefined), (''date'', JUndefined)]
      \<and> items ! 1 = JObj [(''id'', JStr ''2''), (''product'', JStr ''radio''),
                            (''category'', JUndefined), (''price'', JUndefined),
                            (''quantity'', JUndefined), (''date'', JUndefined)]"
    using items(1) n i0 i1 by blast
  from c1 c2 c3' c4 c6 c7 c9 c10 have errors:
    "XmlReader_read (\<lambda>content. Inr (JObj [])) ''sales.xml'' (\<lambda>path. Inl (External ''ENOENT'')) =
       Inl (Error (xml_failed_prefix @ ''ENOENT''))"
    "XmlReader_read (\<lambda>content. Inl (External ''Unclosed tag'')) ''sales.xml''
        (\<lambda>path. Inr ''<sales>'') =
       Inl (Error (xml_failed_prefix @ ''Unclosed tag''))"
    "CsvReader_read (\<lambda>v. v) ''sales.csv'' (\<lambda>path. Inl (External ''ENOENT'')) =
       Inl (Error (csv_failed_prefix @ ''ENOENT''))"
    "JsonReader_read (\<lambda>content. Inr (JNum 5)) ''users.json'' (\<lambda>path. Inl (External ''ENOENT'')) =
       Inl (Error (json_failed_prefix @ ''ENOENT''))"
    "JsonReader_read (\<lambda>content. Inl (External ''SyntaxError'')) ''users.json'' (\<lambda>path. Inr ''['') =
       Inl (Error (json_failed_prefix @ ''SyntaxError''))"
    by (simp_all only: String_of_error.simps)
  from errors c3' c5' c8 c9 c10 c11 show ?thesis
    by (intro conjI)
qed

text \<open>
  The claim as stated fails: of two \<open>sale\<close> elements, one of them without its required
  fields, \<open>XmlReader.read\<close> returns the other and raises nothing; a CSV line without
  its last cell becomes a record whose \<open>date\<close> is \<open>undefined\<close>; and
  \<open>GenericJsonReader.read\<close> does not wrap the failure of the file system.
\<close>

theorem readers_return_partial_data:
  "XmlReader_read
     (\<lambda>content. Inr (JObj [(''sales'', JObj [(''sale'', JArr
        [JObj [(''id'', JNum 1), (''product'', JStr ''tv''), (''category'', JStr ''e''),
               (''price'', JNum 300), (''quantity'', JNum 2), (''date'', JStr ''2024-01-01'')],
         JObj [(''id'', JNum 2), (''product'', JStr ''radio'')]])])]))
     ''sales.xml'' (\<lambda>path. Inr ''<sales/>'') =
   Inr (JArr
        [JObj [(''id'', JNum 1), (''product'', JStr ''tv''), (''category'', JStr ''e''),
               (''price'', JNum 300), (''quantity'', JNum 2), (''date'', JStr ''2024-01-01'')]])
   \<and> (\<forall>Number. CsvReader_read Number ''sales.csv''
         (\<lambda>path. Inr (''id,product,category,price,quantity,date'' @ [CHR 0x0A] @ ''7,tv,e,300,2'')) =
       Inr (JArr
        [JObj [(''id'', Number (JStr ''7'')), (''product'', JStr ''tv''), (''category'', JStr ''e''),
               (''price'', Number (JStr ''300'')), (''quantity'', Number (JStr ''2'')),
               (''date'', JUndefined)]]))
   \<and> (\<forall>JSON_parse. GenericJsonReader_read JSON_parse ''users.json''
         (\<lambda>path. Inl (External ''ENOENT'')) = Inl (External ''ENOENT''))"
proof -
  have lines: "String_split (CHR 0x0A)
      (trim (''id,product,category,price,quantity,date'' @ [CHR 0x0A] @ ''7,tv,e,300,2'')) =
      [''id,product,category,price,quantity,date'', ''7,tv,e,300,2'']"
    by code_simp
  have cells: "map trim (String_split (CHR '','') ''7,tv,e,300,2'') =
      [''7'', ''tv'', ''e'', ''300'', ''2'']"
    by code_simp
  have "XmlReader_read
     (\<lambda>content. Inr (JObj [(''sales'', JObj [(''sale'', JArr
        [JObj [(''id'', JNum 1), (''product'', JStr ''tv''), (''category'', JStr ''e''),
               (''price'', JNum 300), (''quantity'', JNum 2), (''date'', JStr ''2024-01-01'')],
         JObj [(''id'', JNum 2), (''product'', JStr ''radio'')]])])]))
     ''sales.xml'' (\<lambda>path. Inr ''<sales/>'') =
   Inr (JArr
        [JObj [(''id'', JNum 1), (''product'', JStr ''tv''), (''category'', JStr ''e''),
               (''price'', JNum 300), (''quantity'', JNum 2), (''date'', JStr ''2024-01-01'')]])"
    by (simp add: XmlReader_read_def XmlReader_collect_sale_elements sale_elements_def get_def
        conforms_def Sale_shape_def)
  moreover have "CsvReader_read Number ''sales.csv''
         (\<lambda>path. Inr (''id,product,category,price,quantity,date'' @ [CHR 0x0A] @ ''7,tv,e,300,2'')) =
       Inr (JArr
        [JObj [(''id'', Number (JStr ''7'')), (''product'', JStr ''tv''), (''category'', JStr ''e''),
               (''price'', Number (JStr ''300'')), (''quantity'', Number (JStr ''2'')),
               (''date'', JUndefined)]])" for Number
    unfolding CsvReader_read_def Let_def sum.case lines
    by (simp add: sale_of_line_def Let_def cells value_at_def)
  moreover have "GenericJsonReader_read JSON_parse ''users.json''
         (\<lambda>path. Inl (External ''ENOENT'')) = Inl (External ''ENOENT'')" for JSON_parse
    by (simp add: GenericJsonReader_read_def)
  ultimately show ?thesis
    by blast
qed

text \<open>
  Since \<open>XmlReader.read\<close> keeps only what its own \<open>isSale\<close> accepts, the validation
  step of \<open>load\<close> never rejects what it returns: loading an XML file fails only when
  reading it fails.
\<close>

lemma XmlReader_validate_conforms:
  "XmlReader_validate data =
     Inr (case data of JArr items \<Rightarrow> list_all (conforms Sale_shape) items | _ \<Rightarrow> False)"
  using CsvReader_validate_conforms [of data]
  by (simp add: XmlReader_validate_def CsvReader_validate_def XmlReader_isSale_def [abs_def])

lemma XmlReader_load_never_rejects:
  "load (reading (XmlReader_read parse path)) XmlReader_validate readFile =
     (XmlReader_read parse path readFile, readFile)"
proof (cases "readFile path")
  case (Inl e)
  then show ?thesis by (simp add: load_def reading_def XmlReader_read_def)
next
  case content: (Inr content)
  show ?thesis
  proof (cases "parse content")
    case (Inl e)
    then show ?thesis using content by (simp add: load_def reading_def XmlReader_read_def)
  next
    case (Inr jsonObj)
    then show ?thesis
      using content
      by (simp add: load_def reading_def XmlReader_read_def XmlReader_collect_sale_elements
          XmlReader_validate_conforms list_all_iff)
  qed
qed

section \<open>Properties of the analysis engine\<close>

subsection \<open>Filtering\<close>

text \<open>
  C9: applying \<open>filterBy(field, value)\<close> twice in succession leaves the same working set
  as applying it once, for every working set, field and value.
\<close>

theorem filterBy_idempotent:
  "filterBy field v (filterBy field v data) = filterBy field v data"
  by (simp add: filterBy_def)


subsection \<open>Aggregation\<close>

text \<open>The values that survive the \<open>typeof\<close> filter are the numbers of the column, in order.\<close>

lemma numeric_values_JNumber:
  "map JNumber (numeric_values field data) =
     filter (\<lambda>val. typeof val = ''number'') (map (\<lambda>item. get item field) data)"
proof -
  have "typeof v = ''number'' \<Longrightarrow> JNumber (number_value v) = v" for v
    by (cases v) simp_all
  then show ?thesis
    unfolding numeric_values_def by (induction data) simp_all
qed

text \<open>
  Where the code does what the specification says: on a column whose numbers are all
  finite, when no operation rounds and \<open>Math.min\<close> and \<open>Math.max\<close> accept the number
  of arguments.
\<close>

lemma foldl_js_add_exact:
  "foldl (\<lambda>sum val. js_add Finite sum val) (Finite a) (map Finite qs) = Finite (a + sum_list qs)"
  by (induction qs arbitrary: a) (simp_all add: add.assoc)

lemma fold_js_min_finite:
  "fold js_min (map Finite qs) (Finite a) = Finite (fold min qs a)"
  by (induction qs arbitrary: a) (simp_all add: min.commute)

lemma fold_js_max_finite:
  "fold js_max (map Finite qs) (Finite a) = Finite (fold max qs a)"
  by (induction qs arbitrary: a) (simp_all add: max.commute)

lemma Math_min_finite:
  assumes "qs \<noteq> []" and "length qs \<le> argument_limit"
  shows "Math_min argument_limit (map Finite qs) = Inr (Finite (Min (set qs)))"
proof -
  obtain q rest where qs: "qs = q # rest"
    using assms(1) by (cases qs) auto
  have "fold js_min (map Finite qs) PosInfinity = Finite (fold min rest q)"
    by (simp add: qs fold_js_min_finite)
  also have "fold min rest q = Min (set qs)"
    using Min.set_eq_fold [of q rest] by (simp add: qs)
  finally show ?thesis
    using assms(2) by (simp add: Math_min_def)
qed

lemma Math_max_finite:
  assumes "qs \<noteq> []" and "length qs \<le> argument_limit"
  shows "Math_max argument_limit (map Finite qs) = Inr (Finite (Max (set qs)))"
proof -
  obtain q rest where qs: "qs = q # rest"
    using assms(1) by (cases qs) auto
  have "fold js_max (map Finite qs) NegInfinity = Finite (fold max rest q)"
    by (simp add: qs fold_js_max_finite)
  also have "fold max rest q = Max (set qs)"
    using Max.set_eq_fold [of q rest] by (simp add: qs)
  finally show ?thesis
    using assms(2) by (simp add: Math_max_def)
qed

lemma aggregate_finite_values:
  assumes "numeric_values field data = map Finite qs" and "length qs \<le> argument_limit"
  shows "aggregate Finite argument_limit field ''sum'' data = Inr (Finite (sum_list qs))"
    and "aggregate Finite argument_limit field ''avg'' data =
           Inr (Finite (if qs = [] then 0 else sum_list qs / of_nat (length qs)))"
    and "aggregate Finite argument_limit field ''min'' data =
           Inr (Finite (if qs = [] then 0 else Min (set qs)))"
    and "aggregate Finite argument_limit field ''max'' data =
           Inr (Finite (if qs = [] then 0 else Max (set qs)))"
    and "aggregate Finite argument_limit field ''count'' data = Inr (Finite (of_nat (length qs)))"
proof -
  show "aggregate Finite argument_limit field ''sum'' data = Inr (Finite (sum_list qs))"
    by (simp add: aggregate_def Let_def assms(1) foldl_js_add_exact)
  show "aggregate Finite argument_limit field ''avg'' data =
           Inr (Finite (if qs = [] then 0 else sum_list qs / of_nat (length qs)))"
    by (simp add: aggregate_def Let_def assms(1) foldl_js_add_exact)
  show "aggregate Finite argument_limit field ''min'' data =
           Inr (Finite (if qs = [] then 0 else Min (set qs)))"
    using Math_min_finite [OF _ assms(2)] by (simp add: aggregate_def Let_def assms(1))
  show "aggregate Finite argument_limit field ''max'' data =
           Inr (Finite (if qs = [] then 0 else Max (set qs)))"
    using Math_max_finite [OF _ assms(2)] by (simp add: aggregate_def Let_def assms(1))
  show "aggregate Finite argument_limit field ''count'' data = Inr (Finite (of_nat (length qs)))"
    by (simp add: aggregate_def Let_def assms(1))
qed

text \<open>Every operation returns 0 when the column has no number.\<close>

lemma aggregate_no_numbers:
  "numeric_values field data = [] \<Longrightarrow>
     aggregate fl argument_limit field operation data = Inr (Finite 0)"
  by (simp add: aggregate_def Let_def)

text \<open>
  The example of the specification: on \<open>[{price:10},{price:20},{price:30}]\<close> the five
  operations give 60, 20, 10, 30 and 3.
\<close>

lemma aggregate_example:
  "aggregate Finite 3 ''price'' ''sum'' [[(''price'', JNum 10)], [(''price'', JNum 20)], [(''price'', JNum 30)]] = Inr (Finite 60)"
  "aggregate Finite 3 ''price'' ''avg'' [[(''price'', JNum 10)], [(''price'', JNum 20)], [(''price'', JNum 30)]] = Inr (Finite 20)"
  "aggregate Finite 3 ''price'' ''min'' [[(''price'', JNum 10)], [(''price'', JNum 20)], [(''price'', JNum 30)]] = Inr (Finite 10)"
  "aggregate Finite 3 ''price'' ''max'' [[(''price'', JNum 10)], [(''price'', JNum 20)], [(''price'', JNum 30)]] = Inr (Finite 30)"
  "aggregate Finite 3 ''price'' ''count'' [[(''price'', JNum 10)], [(''price'', JNum 20)], [(''price'', JNum 30)]] = Inr (Finite 3)"
  by (simp_all add: aggregate_def Let_def numeric_values_def get_def Math_min_def Math_max_def)

text \<open>\<open>NaN\<close> absorbs: a sum, a least and a greatest value that meet it are \<open>NaN\<close>.\<close>

lemma js_add_NaN: "js_add fl x NaN = NaN"
  by (cases x) simp_all

lemma js_min_NaN: "js_min x NaN = NaN"
  by (cases x) simp_all

lemma js_max_NaN: "js_max x NaN = NaN"
  by (cases x) simp_all

lemma foldl_js_add_NaN: "foldl (\<lambda>sum val. js_add fl sum val) NaN vs = NaN"
  by (induction vs) simp_all

lemma fold_js_min_NaN: "fold js_min vs NaN = NaN"
  by (induction vs) (simp_all add: js_min_NaN)

lemma fold_js_max_NaN: "fold js_max vs NaN = NaN"
  by (induction vs) (simp_all add: js_max_NaN)

lemma sum_with_NaN:
  "NaN \<in> set vs \<Longrightarrow> foldl (\<lambda>sum val. js_add fl sum val) a vs = NaN"
  by (induction vs arbitrary: a) (auto simp: js_add_NaN foldl_js_add_NaN)

lemma min_with_NaN: "NaN \<in> set vs \<Longrightarrow> fold js_min vs a = NaN"
  by (induction vs arbitrary: a) (auto simp: fold_js_min_NaN)

lemma max_with_NaN: "NaN \<in> set vs \<Longrightarrow> fold js_max vs a = NaN"
  by (induction vs arbitrary: a) (auto simp: fold_js_max_NaN)

lemma numeric_values_replicate:
  "numeric_values ''price'' (replicate k [(''price'', JNum 1)]) = replicate k (Finite 1)"
  by (simp add: numeric_values_def get_def)

text \<open>
  C1: for every working set and field, \<open>aggregate(field, op)\<close> is the named reduction over
  exactly the numeric values of the field, the other entries left out and nothing raised.
  The code does otherwise on two kinds of working set. \<open>NaN\<close> is not a numeric value for
  \<open>isNumber\<close> of \<open>utils/helpers.ts\<close>, yet its \<open>typeof\<close> is \<open>number\<close>: on
  \<open>[{price:10},{price:NaN},{price:30}]\<close> it is not left out, so \<open>sum\<close>, \<open>avg\<close>,
  \<open>min\<close> and \<open>max\<close> are \<open>NaN\<close> (not 40, 20, 10 and 30) and \<open>count\<close> is 3 (not 2),
  whatever the rounding and for every argument limit of at least three. And on a working
  set with one numeric value more than the engine accepts arguments in a call, \<open>min\<close>
  and \<open>max\<close> raise a \<open>RangeError\<close>.
\<close>

theorem aggregate_NaN_and_RangeError:
  "\<not> isNumber (JNumber NaN)
   \<and> numeric_values ''price'' [[(''price'', JNum 10)], [(''price'', JNumber NaN)], [(''price'', JNum 30)]] =
       [Finite 10, NaN, Finite 30]
   \<and> aggregate fl (3 + n) ''price'' ''sum'' [[(''price'', JNum 10)], [(''price'', JNumber NaN)], [(''price'', JNum 30)]] = Inr NaN
   \<and> aggregate fl (3 + n) ''price'' ''avg'' [[(''price'', JNum 10)], [(''price'', JNumber NaN)], [(''price'', JNum 30)]] = Inr NaN
   \<and> aggregate fl (3 + n) ''price'' ''min'' [[(''price'', JNum 10)], [(''price'', JNumber NaN)], [(''price'', JNum 30)]] = Inr NaN
   \<and> aggregate fl (3 + n) ''price'' ''max'' [[(''price'', JNum 10)], [(''price'', JNumber NaN)], [(''price'', JNum 30)]] = Inr NaN
   \<and> aggregate fl (3 + n) ''price'' ''count'' [[(''price'', JNum 10)], [(''price'', JNumber NaN)], [(''price'', JNum 30)]] = Inr (Finite 3)
   \<and> aggregate fl argument_limit ''price'' ''min'' (replicate (Suc argument_limit) [(''price'', JNum 1)]) = Inl RangeError
   \<and> aggregate fl argument_limit ''price'' ''max'' (replicate (Suc argument_limit) [(''price'', JNum 1)]) = Inl RangeError"
proof -
  let ?data = "[[(''price'', JNum 10)], [(''price'', JNumber NaN)], [(''price'', JNum 30)]]"
  have column: "numeric_values ''price'' ?data = [Finite 10, NaN, Finite 30]"
    by (simp add: numeric_values_def get_def)
  have total: "foldl (\<lambda>sum val. js_add fl sum val) (Finite 0) [Finite 10, NaN, Finite 30] = NaN"
    by (rule sum_with_NaN) simp
  have least: "fold js_min [Finite 10, NaN, Finite 30] PosInfinity = NaN"
    by (rule min_with_NaN) simp
  have greatest: "fold js_max [Finite 10, NaN, Finite 30] NegInfinity = NaN"
    by (rule max_with_NaN) simp
  have "\<not> isNumber (JNumber NaN)"
    by (simp add: isNumber_def)
  moreover have "aggregate fl (3 + n) ''price'' ''sum'' ?data = Inr NaN"
    unfolding aggregate_def Let_def column using total by simp
  moreover have "aggregate fl (3 + n) ''price'' ''avg'' ?data = Inr NaN"
    unfolding aggregate_def Let_def column using total by simp
  moreover have "aggregate fl (3 + n) ''price'' ''min'' ?data = Inr NaN"
    unfolding aggregate_def Let_def column Math_min_def using least by simp
  moreover have "aggregate fl (3 + n) ''price'' ''max'' ?data = Inr NaN"
    unfolding aggregate_def Let_def column Math_max_def using greatest by simp
  moreover have "aggregate fl (3 + n) ''price'' ''count'' ?data = Inr (Finite 3)"
    unfolding aggregate_def Let_def column by simp
  moreover have
    "aggregate fl argument_limit ''price'' ''min'' (replicate (Suc argument_limit) [(''price'', JNum 1)]) = Inl RangeError"
    unfolding aggregate_def Let_def numeric_values_replicate by (simp add: Math_min_def)
  moreover have
    "aggregate fl argument_limit ''price'' ''max'' (replicate (Suc argument_limit) [(''price'', JNum 1)]) = Inl RangeError"
    unfolding aggregate_def Let_def numeric_values_replicate by (simp add: Math_max_def)
  ultimately show ?thesis
    using column by simp
qed

subsection \<open>Slicing\<close>

lemma limit_of_int:
  "limit (of_int n) data =
     (if n < 0 then take (nat (max (int (length data) + n) 0)) data
      else take (nat (min n (int (length data)))) data)"
  by (simp add: limit_def slice_def ToIntegerOrInfinity_def relative_index_def Let_def)

text \<open>
  C10: for a working set of length \<open>L\<close> and a negative integer \<open>n\<close>, \<open>limit(n)\<close> leaves
  the first \<open>max(L + n, 0)\<close> records, that is it drops the last \<open>|n|\<close> records (the
  \<open>slice\<close> semantics of a negative end index); for \<open>n \<ge> 0\<close> it keeps the first
  \<open>min(n, L)\<close> records.
\<close>

theorem limit_slice_semantics:
  "limit (of_int n) data =
     (if n < 0 then take (nat (max (int (length data) + n) 0)) data
      else take (nat (min n (int (length data)))) data)
   \<and> int (length (limit (of_int n) data)) =
     (if n < 0 then max (int (length data) + n) 0 else min n (int (length data)))
   \<and> limit (of_int n) data =
     (if n < 0 then take (length data - nat (- n)) data else take (nat n) data)"
proof (intro conjI)
  show "limit (of_int n) data =
     (if n < 0 then take (nat (max (int (length data) + n) 0)) data
      else take (nat (min n (int (length data)))) data)"
    by (rule limit_of_int)
  show "int (length (limit (of_int n) data)) =
     (if n < 0 then max (int (length data) + n) 0 else min n (int (length data)))"
    by (simp add: limit_of_int)
  have "n < 0 \<Longrightarrow> nat (max (int (length data) + n) 0) = length data - nat (- n)"
    by linarith
  moreover have "0 \<le> n \<Longrightarrow> take (nat (min n (int (length data)))) data = take (nat n) data"
    by (cases "n \<le> int (length data)") (simp_all add: min_def)
  ultimately show "limit (of_int n) data =
     (if n < 0 then take (length data - nat (- n)) data else take (nat n) data)"
    by (simp add: limit_of_int)
qed

subsection \<open>Sorting\<close>

text \<open>The insertion sort rearranges its input, sorts it and keeps equal elements in order.\<close>

lemma mset_insert_sorted: "mset (insert_sorted c x ys) = add_mset x (mset ys)"
  by (induction ys) simp_all

lemma mset_stable_sort: "mset (stable_sort c xs) = mset xs"
  unfolding stable_sort_def by (induction xs) (simp_all add: mset_insert_sorted)

lemma set_stable_sort: "set (stable_sort c xs) = set xs"
  using mset_stable_sort [of c xs] by (metis set_mset_mset)

lemma consistent_on_subset: "consistent_on c S \<Longrightarrow> T \<subseteq> S \<Longrightarrow> consistent_on c T"
  unfolding consistent_on_def by blast

lemma consistent_on_flip:
  "consistent_on c S \<Longrightarrow> a \<in> S \<Longrightarrow> b \<in> S \<Longrightarrow> \<not> c a b \<le> 0 \<Longrightarrow> c b a \<le> 0"
  unfolding consistent_on_def by (meson linorder_not_le order_less_imp_le)

lemma consistent_on_trans:
  "consistent_on c S \<Longrightarrow> a \<in> S \<Longrightarrow> b \<in> S \<Longrightarrow> d \<in> S \<Longrightarrow>
     c a b \<le> 0 \<Longrightarrow> c b d \<le> 0 \<Longrightarrow> c a d \<le> 0"
  unfolding consistent_on_def by blast

lemma sorted_insert_sorted:
  assumes "consistent_on c S" "x \<in> S" "set ys \<subseteq> S"
    and "sorted_wrt (\<lambda>a b. c a b \<le> 0) ys"
  shows "sorted_wrt (\<lambda>a b. c a b \<le> 0) (insert_sorted c x ys)"
  using assms(3,4)
proof (induction ys)
  case Nil
  then show ?case by simp
next
  case (Cons y ys)
  show ?case
  proof (cases "c x y \<le> 0")
    case True
    have "c x z \<le> 0" if "z \<in> set ys" for z
      using consistent_on_trans [OF assms(1,2), of y z] True Cons.prems that by auto
    with True Cons.prems show ?thesis by simp
  next
    case False
    have yx: "c y x \<le> 0"
      using consistent_on_flip [OF assms(1,2) _ False] Cons.prems by simp
    have "set (insert_sorted c x ys) = insert x (set ys)"
      using mset_insert_sorted [of c x ys] by (metis set_mset_add_mset_insert set_mset_mset)
    with False yx Cons show ?thesis by auto
  qed
qed

lemma sorted_stable_sort:
  assumes "consistent_on c (set xs)"
  shows "sorted_wrt (\<lambda>a b. c a b \<le> 0) (stable_sort c xs)"
  using assms
proof (induction xs)
  case Nil
  then show ?case by (simp add: stable_sort_def)
next
  case (Cons x xs)
  have "consistent_on c (set xs)"
    using Cons.prems by (rule consistent_on_subset) auto
  then have "sorted_wrt (\<lambda>a b. c a b \<le> 0) (stable_sort c xs)"
    by (rule Cons.IH)
  then have "sorted_wrt (\<lambda>a b. c a b \<le> 0) (insert_sorted c x (stable_sort c xs))"
    by (intro sorted_insert_sorted [OF Cons.prems]) (simp_all add: set_stable_sort subset_insertI)
  then show ?case by (simp add: stable_sort_def)
qed

lemma filter_insert_sorted:
  assumes "\<And>y. y \<in> set ys \<Longrightarrow> P x \<Longrightarrow> P y \<Longrightarrow> c x y \<le> 0"
  shows "filter P (insert_sorted c x ys) = (if P x then x # filter P ys else filter P ys)"
  using assms by (induction ys) auto

lemma filter_stable_sort:
  assumes "\<And>x y. x \<in> set xs \<Longrightarrow> y \<in> set xs \<Longrightarrow> P x \<Longrightarrow> P y \<Longrightarrow> c x y \<le> 0"
  shows "filter P (stable_sort c xs) = filter P xs"
  using assms
proof (induction xs)
  case Nil
  then show ?case by (simp add: stable_sort_def)
next
  case (Cons x xs)
  have "filter P (insert_sorted c x (stable_sort c xs)) =
      (if P x then x # filter P (stable_sort c xs) else filter P (stable_sort c xs))"
    by (rule filter_insert_sorted) (simp add: set_stable_sort Cons.prems)
  moreover have "filter P (stable_sort c xs) = filter P xs"
    by (rule Cons.IH) (simp add: Cons.prems)
  ultimately show ?case by (simp add: stable_sort_def)
qed

text \<open>What \<open>sortBy\<close> sorts by.\<close>

lemma sortBy_stable_sort:
  "sortBy fl lc field order data = stable_sort (sortBy_rule fl lc field order) data"
  by (simp add: sortBy_def Array_sort_def sortBy_rule_def [abs_def])

lemma comparison_sign_negate: "comparison_sign (js_negate v) = - comparison_sign v"
  by (cases v) simp_all

lemma js_sub_flip:
  assumes "symmetric_rounding fl"
  shows "js_sub fl y x = js_negate (js_sub fl x y)"
proof -
  have neg: "js_negate (fl q) = fl (- q)" for q
    using assms unfolding symmetric_rounding_def by simp
  show ?thesis
    by (cases x; cases y) (simp_all add: js_sub_def neg)
qed

lemma sortBy_rule_DESC:
  assumes "symmetric_rounding fl"
  shows "sortBy_rule fl lc field DESC a b = - sortBy_rule fl lc field ASC a b"
proof (cases "get a field")
  case a: (JNumber x)
  show ?thesis
  proof (cases "get b field")
    case (JNumber y)
    then show ?thesis
      using a js_sub_flip [OF assms, of y x]
      by (simp add: sortBy_rule_def sortBy_compare_def comparison_sign_negate)
  qed (simp_all add: a sortBy_rule_def sortBy_compare_def)
next
  case a: (JStr s)
  show ?thesis
    by (cases "get b field")
      (simp_all add: a sortBy_rule_def sortBy_compare_def Let_def comparison_sign_negate)
qed (simp_all add: sortBy_rule_def sortBy_compare_def)

lemma sortBy_rule_same_value:
  "get a field = get b field \<Longrightarrow>
     sortBy_rule fl lc field order a b = sortBy_rule fl lc field order a a"
  by (simp add: sortBy_rule_def sortBy_compare_def)

lemma consistent_on_refl: "consistent_on c S \<Longrightarrow> a \<in> S \<Longrightarrow> c a a = 0"
  unfolding consistent_on_def by (metis linorder_neqE_linordered_idom order_less_asym)

lemma consistent_on_sym0:
  "consistent_on c S \<Longrightarrow> a \<in> S \<Longrightarrow> b \<in> S \<Longrightarrow> c a b = 0 \<Longrightarrow> c b a = 0"
  unfolding consistent_on_def by (metis less_irrefl linorder_neqE_linordered_idom)

text \<open>The elements that compare equal to one element compare equal to each other.\<close>

lemma consistent_on_equal_class:
  assumes "consistent_on c S" "x \<in> S" "u \<in> S" "v \<in> S" "c x u = 0" "c x v = 0"
  shows "c u v = 0"
proof -
  have ux: "c u x = 0" and vx: "c v x = 0"
    using consistent_on_sym0 [OF assms(1,2)] assms(3-6) by simp_all
  have "c u v \<le> 0"
    using consistent_on_trans [OF assms(1,3,2,4)] ux assms(6) by simp
  moreover have "c v u \<le> 0"
    using consistent_on_trans [OF assms(1,4,2,3)] vx assms(5) by simp
  moreover have "c u v < 0 \<longleftrightarrow> 0 < c v u"
    using assms(1,3,4) unfolding consistent_on_def by blast
  ultimately show ?thesis by auto
qed

lemma consistent_on_DESC:
  assumes "symmetric_rounding fl" and "consistent_on (sortBy_rule fl lc field ASC) S"
  shows "consistent_on (sortBy_rule fl lc field DESC) S"
  unfolding consistent_on_def
proof (intro ballI conjI impI)
  fix a b d assume S: "a \<in> S" "b \<in> S" "d \<in> S"
  let ?c = "sortBy_rule fl lc field ASC"
  note DESC = sortBy_rule_DESC [OF assms(1)]
  have sgn: "?c u v < 0 \<longleftrightarrow> 0 < ?c v u" if "u \<in> S" "v \<in> S" for u v
    using assms(2) that unfolding consistent_on_def by blast
  show "sortBy_rule fl lc field DESC a b < 0 \<longleftrightarrow> 0 < sortBy_rule fl lc field DESC b a"
    using sgn [of b a] S by (simp add: DESC)
  assume "sortBy_rule fl lc field DESC a b \<le> 0 \<and> sortBy_rule fl lc field DESC b d \<le> 0"
  then have "0 \<le> ?c a b" "0 \<le> ?c b d" by (simp_all add: DESC)
  then have "?c b a \<le> 0" "?c d b \<le> 0"
    using sgn [of a b] sgn [of b d] S by auto
  then have "?c d a \<le> 0"
    using consistent_on_trans [OF assms(2), of d b a] S by simp
  then have "0 \<le> ?c a d"
    using sgn [of a d] S by auto
  then show "sortBy_rule fl lc field DESC a d \<le> 0" by (simp add: DESC)
qed

text \<open>
  The rule is consistent on a column of numbers other than \<open>NaN\<close>, provided the rounded
  difference of two finite values of the column has the sign of their exact difference
  (as the difference of two doubles has: it can overflow to an infinity, and it is zero
  only when the two are equal); and on a column of strings when the collation is
  consistent.
\<close>

lemma consistent_on_numbers:
  assumes numbers: "\<And>r. r \<in> S \<Longrightarrow> \<exists>n. get r field = JNumber n \<and> n \<noteq> NaN"
    and sign: "\<And>a b x y. a \<in> S \<Longrightarrow> b \<in> S \<Longrightarrow> get a field = JNum x \<Longrightarrow> get b field = JNum y \<Longrightarrow>
      (comparison_sign (fl (x - y)) < 0 \<longleftrightarrow> x < y) \<and> (0 < comparison_sign (fl (x - y)) \<longleftrightarrow> y < x)"
  shows "consistent_on (sortBy_rule fl lc field ASC) S"
proof -
  let ?c = "sortBy_rule fl lc field ASC"
  define before where "before = (\<lambda>n m. case n of
      NegInfinity \<Rightarrow> m \<noteq> NegInfinity
    | Finite x \<Rightarrow> (case m of Finite y \<Rightarrow> x < y | PosInfinity \<Rightarrow> True | _ \<Rightarrow> False)
    | _ \<Rightarrow> False)"
  have rule: "(?c a b < 0 \<longleftrightarrow> before na nb) \<and> (0 < ?c a b \<longleftrightarrow> before nb na)"
    if "a \<in> S" "b \<in> S" "get a field = JNumber na" "get b field = JNumber nb"
      "na \<noteq> NaN" "nb \<noteq> NaN" for a b na nb
  proof (cases na)
    case na: (Finite x)
    show ?thesis
    proof (cases nb)
      case (Finite y)
      then show ?thesis
        using sign [OF that(1,2), of x y] that(3,4) na
        by (simp add: before_def sortBy_rule_def sortBy_compare_def js_sub_def)
    qed (use that na in \<open>simp_all add: before_def sortBy_rule_def sortBy_compare_def js_sub_def\<close>)
  qed (use that in \<open>cases nb; simp add: before_def sortBy_rule_def sortBy_compare_def js_sub_def\<close>)+
  have order: "before nd nb \<or> before nb na"
    if "before nd na" "nb \<noteq> NaN" for na nb nd
    using that by (cases nd; cases na; cases nb; simp add: before_def; linarith?)
  show ?thesis
    unfolding consistent_on_def
  proof (intro ballI)
    fix a b d assume S: "a \<in> S" "b \<in> S" "d \<in> S"
    from numbers [OF S(1)] obtain na where a: "get a field = JNumber na" "na \<noteq> NaN"
      by blast
    from numbers [OF S(2)] obtain nb where b: "get b field = JNumber nb" "nb \<noteq> NaN"
      by blast
    from numbers [OF S(3)] obtain nd where d: "get d field = JNumber nd" "nd \<noteq> NaN"
      by blast
    note ab = rule [OF S(1,2) a(1) b(1) a(2) b(2)]
    note ba = rule [OF S(2,1) b(1) a(1) b(2) a(2)]
    note bd = rule [OF S(2,3) b(1) d(1) b(2) d(2)]
    note ad = rule [OF S(1,3) a(1) d(1) a(2) d(2)]
    have "?c a b < 0 \<longleftrightarrow> 0 < ?c b a"
      using ab ba by blast
    moreover have "?c a d \<le> 0" if "?c a b \<le> 0" "?c b d \<le> 0"
    proof -
      have "\<not> before nb na" "\<not> before nd nb"
        using that ab bd by auto
      then have "\<not> before nd na"
        using order [of nd na nb] b(2) by blast
      then show ?thesis
        using ad by auto
    qed
    ultimately show "(?c a b < 0 \<longleftrightarrow> 0 < ?c b a) \<and> (?c a b \<le> 0 \<and> ?c b d \<le> 0 \<longrightarrow> ?c a d \<le> 0)"
      by blast
  qed
qed

lemma consistent_on_strings:
  assumes "\<And>r. r \<in> S \<Longrightarrow> typeof (get r field) = ''string''"
    and "consistent_on (\<lambda>s t. comparison_sign (lc s t)) UNIV"
  shows "consistent_on (sortBy_rule fl lc field ASC) S"
  unfolding consistent_on_def
proof (intro ballI)
  let ?c = "sortBy_rule fl lc field ASC"
  let ?lc = "\<lambda>s t. comparison_sign (lc s t)"
  fix a b d assume "a \<in> S" "b \<in> S" "d \<in> S"
  then have "typeof (get a field) = ''string''" "typeof (get b field) = ''string''"
    "typeof (get d field) = ''string''"
    using assms(1) by blast+
  then obtain sa sb sd where
    a: "get a field = JStr sa" and b: "get b field = JStr sb" and d: "get d field = JStr sd"
    by (cases "get a field"; cases "get b field"; cases "get d field") simp_all
  have "?c a b = ?lc sa sb" "?c b a = ?lc sb sa" "?c b d = ?lc sb sd" "?c a d = ?lc sa sd"
    using a b d by (simp_all add: sortBy_rule_def sortBy_compare_def)
  moreover have "(?lc sa sb < 0 \<longleftrightarrow> 0 < ?lc sb sa) \<and> (?lc sa sb \<le> 0 \<and> ?lc sb sd \<le> 0 \<longrightarrow> ?lc sa sd \<le> 0)"
    using assms(2) unfolding consistent_on_def by blast
  ultimately show "(?c a b < 0 \<longleftrightarrow> 0 < ?c b a) \<and> (?c a b \<le> 0 \<and> ?c b d \<le> 0 \<longrightarrow> ?c a d \<le> 0)"
    by simp
qed

lemma insert_sorted_last:
  "(\<And>y. y \<in> set ys \<Longrightarrow> \<not> c x y \<le> 0) \<Longrightarrow> insert_sorted c x ys = ys @ [x]"
  by (induction ys) simp_all

lemma stable_sort_reverse:
  assumes "sorted_wrt (\<lambda>a b. \<not> c a b \<le> 0) xs"
  shows "stable_sort c xs = rev xs"
  using assms
proof (induction xs)
  case Nil
  then show ?case by (simp add: stable_sort_def)
next
  case (Cons x xs)
  then have "stable_sort c xs = rev xs" by simp
  moreover have "insert_sorted c x (rev xs) = rev xs @ [x]"
    by (rule insert_sorted_last) (use Cons.prems in simp)
  ultimately show ?case by (simp add: stable_sort_def)
qed

text \<open>
  For a consistent comparator there is one sorted stable rearrangement of a list, the one
  \<open>stable_sort\<close> returns: what is proved of the model below holds of every
  implementation of \<open>Array.prototype.sort\<close> that sorts stably.
\<close>

lemma sorted_stable_unique:
  assumes "consistent_on c S" "set ys \<subseteq> S"
    and "mset ys = mset zs"
    and "sorted_wrt (\<lambda>a b. c a b \<le> 0) ys" "sorted_wrt (\<lambda>a b. c a b \<le> 0) zs"
    and "\<And>x. x \<in> S \<Longrightarrow> filter (\<lambda>y. c x y = 0) ys = filter (\<lambda>y. c x y = 0) zs"
  shows "ys = zs"
  using assms(2-)
proof (induction ys arbitrary: zs)
  case Nil
  then show ?case by simp
next
  case (Cons y ys)
  from Cons.prems(2) obtain z zs' where zs: "zs = z # zs'"
    by (cases zs) auto
  have yS: "y \<in> S" using Cons.prems(1) by simp
  have "z \<in> set (y # ys)"
    using Cons.prems(2) zs by (metis list.set_intros(1) set_mset_mset)
  then have zS: "z \<in> S" using Cons.prems(1) by blast
  have "y \<in> set (z # zs')"
    using Cons.prems(2) zs by (metis list.set_intros(1) set_mset_mset)
  then have zy: "c z y \<le> 0"
    using Cons.prems(4) zs consistent_on_refl [OF assms(1) zS] by auto
  have yz: "c y z \<le> 0"
    using \<open>z \<in> set (y # ys)\<close> Cons.prems(3) consistent_on_refl [OF assms(1) yS] by auto
  have "c y z = 0"
    using yz zy consistent_on_flip [OF assms(1) zS yS] assms(1) yS zS
    unfolding consistent_on_def by (metis antisym_conv2 not_less)
  moreover have "c y y = 0" by (rule consistent_on_refl [OF assms(1) yS])
  ultimately have "y # filter (\<lambda>w. c y w = 0) ys = z # filter (\<lambda>w. c y w = 0) zs'"
    using Cons.prems(5) [OF yS] zs by auto
  then have eq: "z = y" by simp
  have "ys = zs'"
  proof (rule Cons.IH)
    show "set ys \<subseteq> S" using Cons.prems(1) by simp
    show "mset ys = mset zs'" using Cons.prems(2) zs eq by simp
    show "sorted_wrt (\<lambda>a b. c a b \<le> 0) ys" using Cons.prems(3) by simp
    show "sorted_wrt (\<lambda>a b. c a b \<le> 0) zs'" using Cons.prems(4) zs by simp
    show "filter (\<lambda>w. c x w = 0) ys = filter (\<lambda>w. c x w = 0) zs'" if "x \<in> S" for x
    proof -
      have "filter (\<lambda>w. c x w = 0) (y # ys) = filter (\<lambda>w. c x w = 0) (y # zs')"
        using Cons.prems(5) [OF that] zs eq by simp
      then show ?thesis by (cases "c x y = 0") simp_all
    qed
  qed
  with zs eq show ?case by simp
qed

lemma stable_sort_unique:
  assumes "consistent_on c (set xs)"
    and "mset ys = mset xs"
    and "sorted_wrt (\<lambda>a b. c a b \<le> 0) ys"
    and "\<And>x. x \<in> set xs \<Longrightarrow> filter (\<lambda>y. c x y = 0) ys = filter (\<lambda>y. c x y = 0) xs"
  shows "ys = stable_sort c xs"
proof (rule sorted_stable_unique [OF assms(1)])
  show "set ys \<subseteq> set xs"
    using assms(2) by (metis set_mset_mset subset_refl)
  show "mset ys = mset (stable_sort c xs)"
    by (simp add: assms(2) mset_stable_sort)
  show "sorted_wrt (\<lambda>a b. c a b \<le> 0) ys" by fact
  show "sorted_wrt (\<lambda>a b. c a b \<le> 0) (stable_sort c xs)"
    using assms(1) by (rule sorted_stable_sort)
  show "filter (\<lambda>y. c x y = 0) ys = filter (\<lambda>y. c x y = 0) (stable_sort c xs)"
    if "x \<in> set xs" for x
  proof -
    have "filter (\<lambda>y. c x y = 0) (stable_sort c xs) = filter (\<lambda>y. c x y = 0) xs"
    proof (rule filter_stable_sort)
      fix u v assume uv: "u \<in> set xs" "v \<in> set xs" "c x u = 0" "c x v = 0"
      have "c u x = 0" using consistent_on_sym0 [OF assms(1) that uv(1) uv(3)] .
      then show "c u v \<le> 0"
        using consistent_on_trans [OF assms(1) uv(1) that uv(2)] uv(4) by simp
    qed
    with assms(4) [OF that] show ?thesis by simp
  qed
qed

text \<open>
  C6, as the code has it. The comparison rule of \<open>sortBy\<close> is what the sort sees of its
  comparator: the sign of the rounded difference of two numbers, the sign of the
  collation of two strings, and zero for every other pair of values, as for a pair
  with \<open>NaN\<close>. On a working set on which the rule is consistent, and with a rounding
  that is symmetric about zero, \<open>sortBy(field, ASCENDING)\<close> followed by
  \<open>sortBy(field, DESCENDING)\<close> rearranges the working set; the first result is in
  ascending and the second in descending order of the rule, so two records that the
  rule tells apart stand in opposite orders in the two results; each of the two sorts
  keeps the records that the rule compares equal to a given record in the order it
  found them, whether their field values are the same or not, and so keeps the records
  of one field value in the order it found them. When the records are pairwise told
  apart by the rule, the second result is the first reversed.
\<close>

theorem sortBy_ascending_then_descending:
  assumes "symmetric_rounding fl"
    and "consistent_on (sortBy_rule fl lc field ASC) (set data)"
  shows "mset (sortBy fl lc field ASC data) = mset data
    \<and> mset (sortBy fl lc field DESC (sortBy fl lc field ASC data)) = mset data
    \<and> sorted_wrt (\<lambda>a b. sortBy_rule fl lc field ASC a b \<le> 0) (sortBy fl lc field ASC data)
    \<and> sorted_wrt (\<lambda>a b. 0 \<le> sortBy_rule fl lc field ASC a b)
         (sortBy fl lc field DESC (sortBy fl lc field ASC data))
    \<and> (\<forall>x. x \<in> set data \<longrightarrow>
          filter (\<lambda>r. sortBy_rule fl lc field ASC x r = 0) (sortBy fl lc field ASC data) =
          filter (\<lambda>r. sortBy_rule fl lc field ASC x r = 0) data)
    \<and> (\<forall>x. x \<in> set data \<longrightarrow>
          filter (\<lambda>r. sortBy_rule fl lc field ASC x r = 0)
            (sortBy fl lc field DESC (sortBy fl lc field ASC data)) =
          filter (\<lambda>r. sortBy_rule fl lc field ASC x r = 0) (sortBy fl lc field ASC data))
    \<and> (\<forall>v. filter (\<lambda>r. get r field = v) (sortBy fl lc field ASC data) =
            filter (\<lambda>r. get r field = v) data)
    \<and> (\<forall>v. filter (\<lambda>r. get r field = v) (sortBy fl lc field DESC (sortBy fl lc field ASC data)) =
            filter (\<lambda>r. get r field = v) (sortBy fl lc field ASC data))
    \<and> (distinct data \<and>
        (\<forall>a b. a \<in> set data \<and> b \<in> set data \<and> a \<noteq> b \<longrightarrow> sortBy_rule fl lc field ASC a b \<noteq> 0)
        \<longrightarrow> sortBy fl lc field DESC (sortBy fl lc field ASC data) =
              rev (sortBy fl lc field ASC data))"
proof -
  let ?asc = "sortBy_rule fl lc field ASC" and ?desc = "sortBy_rule fl lc field DESC"
  let ?A = "sortBy fl lc field ASC data"
  let ?D = "sortBy fl lc field DESC ?A"
  note DESC = sortBy_rule_DESC [OF assms(1)]
  note cons = assms(2)
  have setA: "set ?A = set data"
    by (simp add: sortBy_stable_sort set_stable_sort)
  have consA: "consistent_on ?asc (set ?A)"
    using cons by (simp add: setA)
  have consD: "consistent_on ?desc (set ?A)"
    using assms(1) consA by (rule consistent_on_DESC)
  have eq0: "sortBy_rule fl lc field order a b \<le> 0"
    if "a \<in> set data" "get a field = get b field" for a b order
  proof -
    have "?asc a a = 0" using cons that(1) by (rule consistent_on_refl)
    then have "sortBy_rule fl lc field order a a = 0"
      by (cases order) (simp_all add: DESC)
    then show ?thesis using sortBy_rule_same_value [OF that(2)] by simp
  qed
  have class0: "?asc u v = 0"
    if "x \<in> set data" "u \<in> set data" "v \<in> set data" "?asc x u = 0" "?asc x v = 0" for x u v
    using cons that by (rule consistent_on_equal_class)
  have msetA: "mset ?A = mset data"
    by (simp add: sortBy_stable_sort mset_stable_sort)
  have msetD: "mset ?D = mset data"
    by (simp add: sortBy_stable_sort mset_stable_sort)
  have sortedA: "sorted_wrt (\<lambda>a b. ?asc a b \<le> 0) ?A"
    unfolding sortBy_stable_sort using cons by (rule sorted_stable_sort)
  have "sorted_wrt (\<lambda>a b. ?desc a b \<le> 0) ?D"
    unfolding sortBy_stable_sort [of fl lc field DESC]
    using consD by (rule sorted_stable_sort)
  then have sortedD: "sorted_wrt (\<lambda>a b. 0 \<le> ?asc a b) ?D"
    by (simp add: DESC)
  have classA: "filter (\<lambda>r. ?asc x r = 0) ?A = filter (\<lambda>r. ?asc x r = 0) data"
    if "x \<in> set data" for x
    unfolding sortBy_stable_sort
    by (rule filter_stable_sort) (simp add: class0 [OF that])
  have classD: "filter (\<lambda>r. ?asc x r = 0) ?D = filter (\<lambda>r. ?asc x r = 0) ?A"
    if "x \<in> set data" for x
    unfolding sortBy_stable_sort [of fl lc field DESC]
    by (rule filter_stable_sort) (simp add: class0 [OF that] DESC setA)
  have stableA: "filter (\<lambda>r. get r field = v) ?A = filter (\<lambda>r. get r field = v) data" for v
    unfolding sortBy_stable_sort by (rule filter_stable_sort) (simp add: eq0)
  have stableD: "filter (\<lambda>r. get r field = v) ?D = filter (\<lambda>r. get r field = v) ?A" for v
    unfolding sortBy_stable_sort [of fl lc field DESC]
    by (rule filter_stable_sort) (simp add: eq0 setA)
  have revD: "?D = rev ?A"
    if dist: "distinct data"
      and ne: "\<forall>a b. a \<in> set data \<and> b \<in> set data \<and> a \<noteq> b \<longrightarrow> ?asc a b \<noteq> 0"
  proof -
    have distA: "distinct ?A"
      using dist msetA by (metis distinct_count_atmost_1 set_mset_mset)
    have "sorted_wrt (\<lambda>a b. ?asc a b \<le> 0 \<and> a \<noteq> b \<and> a \<in> set data \<and> b \<in> set data) ?A"
      using sortedA distA setA
      by (simp add: sorted_wrt_iff_nth_less distinct_conv_nth) (metis nth_mem order_less_trans less_imp_neq)
    then have "sorted_wrt (\<lambda>a b. \<not> ?desc a b \<le> 0) ?A"
      by (rule sorted_wrt_mono_rel [rotated]) (use ne in \<open>auto simp add: DESC\<close>)
    then show ?thesis
      unfolding sortBy_stable_sort [of fl lc field DESC] by (rule stable_sort_reverse)
  qed
  show ?thesis
    using msetA msetD sortedA sortedD classA classD stableA stableD revD by blast
qed

text \<open>
  A working set with a repeated price, sorted with exact differences: the descending
  result has the greater price first and the two records of price 20, which the rule
  compares equal, in their original order.
\<close>

theorem sortBy_ascending_then_descending_witness:
  "symmetric_rounding Finite
   \<and> consistent_on (sortBy_rule Finite (\<lambda>s t. Finite 0) ''price'' ASC)
     (set [[(''id'', JNum 1), (''price'', JNum 20)], [(''id'', JNum 2), (''price'', JNum 10)],
           [(''id'', JNum 3), (''price'', JNum 20)]])
   \<and> sortBy Finite (\<lambda>s t. Finite 0) ''price'' ASC
        [[(''id'', JNum 1), (''price'', JNum 20)], [(''id'', JNum 2), (''price'', JNum 10)],
         [(''id'', JNum 3), (''price'', JNum 20)]] =
       [[(''id'', JNum 2), (''price'', JNum 10)], [(''id'', JNum 1), (''price'', JNum 20)],
        [(''id'', JNum 3), (''price'', JNum 20)]]
   \<and> sortBy Finite (\<lambda>s t. Finite 0) ''price'' DESC
        (sortBy Finite (\<lambda>s t. Finite 0) ''price'' ASC
          [[(''id'', JNum 1), (''price'', JNum 20)], [(''id'', JNum 2), (''price'', JNum 10)],
           [(''id'', JNum 3), (''price'', JNum 20)]]) =
       [[(''id'', JNum 1), (''price'', JNum 20)], [(''id'', JNum 3), (''price'', JNum 20)],
        [(''id'', JNum 2), (''price'', JNum 10)]]
   \<and> filter (\<lambda>r. sortBy_rule Finite (\<lambda>s t. Finite 0) ''price'' ASC
                   [(''id'', JNum 1), (''price'', JNum 20)] r = 0)
        (sortBy Finite (\<lambda>s t. Finite 0) ''price'' DESC
          (sortBy Finite (\<lambda>s t. Finite 0) ''price'' ASC
            [[(''id'', JNum 1), (''price'', JNum 20)], [(''id'', JNum 2), (''price'', JNum 10)],
             [(''id'', JNum 3), (''price'', JNum 20)]])) =
       [[(''id'', JNum 1), (''price'', JNum 20)], [(''id'', JNum 3), (''price'', JNum 20)]]
   \<and> filter (\<lambda>r. get r ''price'' = JNum 20)
        (sortBy Finite (\<lambda>s t. Finite 0) ''price'' DESC
          (sortBy Finite (\<lambda>s t. Finite 0) ''price'' ASC
            [[(''id'', JNum 1), (''price'', JNum 20)], [(''id'', JNum 2), (''price'', JNum 10)],
             [(''id'', JNum 3), (''price'', JNum 20)]])) =
       [[(''id'', JNum 1), (''price'', JNum 20)], [(''id'', JNum 3), (''price'', JNum 20)]]"
proof -
  let ?r1 = "[(''id'', JNum 1), (''price'', JNum 20)]"
  let ?d = "[?r1, [(''id'', JNum 2), (''price'', JNum 10)], [(''id'', JNum 3), (''price'', JNum 20)]]"
  let ?lc = "\<lambda>s t :: string. Finite 0"
  have s: "symmetric_rounding Finite"
    by (simp add: symmetric_rounding_def)
  have h: "consistent_on (sortBy_rule Finite ?lc ''price'' ASC) (set ?d)"
    by (rule consistent_on_numbers) (auto simp add: get_def)
  have a: "sortBy Finite ?lc ''price'' ASC ?d =
       [[(''id'', JNum 2), (''price'', JNum 10)], [(''id'', JNum 1), (''price'', JNum 20)],
        [(''id'', JNum 3), (''price'', JNum 20)]]"
    by (simp add: sortBy_def Array_sort_def stable_sort_def sortBy_compare_def get_def js_sub_def)
  have d: "sortBy Finite ?lc ''price'' DESC (sortBy Finite ?lc ''price'' ASC ?d) =
       [[(''id'', JNum 1), (''price'', JNum 20)], [(''id'', JNum 3), (''price'', JNum 20)],
        [(''id'', JNum 2), (''price'', JNum 10)]]"
    unfolding a
    by (simp add: sortBy_def Array_sort_def stable_sort_def sortBy_compare_def get_def js_sub_def)
  note t = sortBy_ascending_then_descending [OF s h]
  have "filter (\<lambda>r. sortBy_rule Finite ?lc ''price'' ASC ?r1 r = 0)
        (sortBy Finite ?lc ''price'' DESC (sortBy Finite ?lc ''price'' ASC ?d)) =
      filter (\<lambda>r. sortBy_rule Finite ?lc ''price'' ASC ?r1 r = 0) ?d"
    using t by simp
  then have e: "filter (\<lambda>r. sortBy_rule Finite ?lc ''price'' ASC ?r1 r = 0)
        (sortBy Finite ?lc ''price'' DESC (sortBy Finite ?lc ''price'' ASC ?d)) =
       [[(''id'', JNum 1), (''price'', JNum 20)], [(''id'', JNum 3), (''price'', JNum 20)]]"
    by (simp add: sortBy_rule_def sortBy_compare_def get_def js_sub_def)
  have "filter (\<lambda>r. get r ''price'' = JNum 20)
        (sortBy Finite ?lc ''price'' DESC (sortBy Finite ?lc ''price'' ASC ?d)) =
      filter (\<lambda>r. get r ''price'' = JNum 20) ?d"
    using t by simp
  then have f: "filter (\<lambda>r. get r ''price'' = JNum 20)
        (sortBy Finite ?lc ''price'' DESC (sortBy Finite ?lc ''price'' ASC ?d)) =
       [[(''id'', JNum 1), (''price'', JNum 20)], [(''id'', JNum 3), (''price'', JNum 20)]]"
    by (simp add: get_def)
  from s h a d e f show ?thesis by blast
qed

text \<open>
  The claim as stated fails where the rule cannot tell two distinct field values apart:
  a number and a string compare equal, so neither sort moves the two records, whatever
  the rounding and the collation.
\<close>

theorem sortBy_mixed_values_not_reversed:
  "get [(''v'', JNum 1)] ''v'' \<noteq> get [(''v'', JStr ''a'')] ''v''
   \<and> (\<forall>fl lc. sortBy fl lc ''v'' ASC [[(''v'', JNum 1)], [(''v'', JStr ''a'')]] =
       [[(''v'', JNum 1)], [(''v'', JStr ''a'')]])
   \<and> (\<forall>fl lc. sortBy fl lc ''v'' DESC (sortBy fl lc ''v'' ASC [[(''v'', JNum 1)], [(''v'', JStr ''a'')]]) =
       [[(''v'', JNum 1)], [(''v'', JStr ''a'')]])"
  by (simp add: sortBy_def Array_sort_def stable_sort_def sortBy_compare_def get_def)

text \<open>
  On a column that mixes numbers and strings the rule is not consistent: 3 and a string
  compare equal, the string and 1 compare equal, and 3 compares greater than 1. The
  same holds of a column of numbers with a \<open>NaN\<close> among them. The order of the result
  is then the implementation's; the insertion sort leaves these working sets as they
  are, with 3 in front of 1 in the ascending result.
\<close>

lemma sortBy_inconsistent_rule_example:
  "\<not> consistent_on (sortBy_rule Finite (\<lambda>s t. Finite 0) ''v'' ASC)
       (set [[(''v'', JNum 3)], [(''v'', JStr ''s'')], [(''v'', JNum 1)]])
   \<and> sortBy Finite (\<lambda>s t. Finite 0) ''v'' ASC [[(''v'', JNum 3)], [(''v'', JStr ''s'')], [(''v'', JNum 1)]] =
       [[(''v'', JNum 3)], [(''v'', JStr ''s'')], [(''v'', JNum 1)]]"
proof
  let ?c = "sortBy_rule Finite (\<lambda>s t. Finite 0) ''v'' ASC"
  let ?a = "[(''v'', JNum 1)]" and ?s = "[(''v'', JStr ''s'')]" and ?b = "[(''v'', JNum 3)]"
  have "?c ?b ?s \<le> 0" "?c ?s ?a \<le> 0" "\<not> ?c ?b ?a \<le> 0"
    by (simp_all add: sortBy_rule_def sortBy_compare_def get_def js_sub_def)
  then show "\<not> consistent_on ?c (set [?b, ?s, ?a])"
    unfolding consistent_on_def by (metis list.set_intros(1) list.set_intros(2))
  show "sortBy Finite (\<lambda>s t. Finite 0) ''v'' ASC [?b, ?s, ?a] = [?b, ?s, ?a]"
    by (simp add: sortBy_def Array_sort_def stable_sort_def sortBy_compare_def get_def js_sub_def)
qed

lemma sortBy_NaN_rule_example:
  "\<not> consistent_on (sortBy_rule Finite (\<lambda>s t. Finite 0) ''v'' ASC)
       (set [[(''v'', JNum 3)], [(''v'', JNumber NaN)], [(''v'', JNum 1)]])
   \<and> sortBy Finite (\<lambda>s t. Finite 0) ''v'' ASC [[(''v'', JNum 3)], [(''v'', JNumber NaN)], [(''v'', JNum 1)]] =
       [[(''v'', JNum 3)], [(''v'', JNumber NaN)], [(''v'', JNum 1)]]"
proof
  let ?c = "sortBy_rule Finite (\<lambda>s t. Finite 0) ''v'' ASC"
  let ?a = "[(''v'', JNum 1)]" and ?s = "[(''v'', JNumber NaN)]" and ?b = "[(''v'', JNum 3)]"
  have "?c ?b ?s \<le> 0" "?c ?s ?a \<le> 0" "\<not> ?c ?b ?a \<le> 0"
    by (simp_all add: sortBy_rule_def sortBy_compare_def get_def js_sub_def)
  then show "\<not> consistent_on ?c (set [?b, ?s, ?a])"
    unfolding consistent_on_def by (metis list.set_intros(1) list.set_intros(2))
  show "sortBy Finite (\<lambda>s t. Finite 0) ''v'' ASC [?b, ?s, ?a] = [?b, ?s, ?a]"
    by (simp add: sortBy_def Array_sort_def stable_sort_def sortBy_compare_def get_def js_sub_def)
qed

subsection \<open>Grouping\<close>

text \<open>
  When no key of the working set is the name of a member of \<open>Object.prototype\<close>,
  \<open>groupBy\<close> returns the partition of the working set by key: the group of a key is
  the records of that key in the order of the working set, the keys of the result are
  the keys that occur, and the sizes of the groups add up to the size of the working set.
\<close>

lemma groupBy_step_fresh:
  assumes "key_of item \<notin> set Object_prototype_keys"
  shows "groupBy_step key_of groups item =
     Inr (groups(key_of item \<mapsto> (case groups (key_of item) of Some g \<Rightarrow> g | None \<Rightarrow> []) @ [item]))"
  using assms by (simp add: groupBy_step_def Let_def split: option.split)

lemma reduce_groupBy_step:
  assumes "\<And>item. item \<in> set data \<Longrightarrow> key_of item \<notin> set Object_prototype_keys"
  shows "reduce (groupBy_step key_of) groups data =
     Inr (\<lambda>k. case groups k of
                 Some g \<Rightarrow> Some (g @ filter (\<lambda>r. key_of r = k) data)
               | None \<Rightarrow> if filter (\<lambda>r. key_of r = k) data = [] then None
                         else Some (filter (\<lambda>r. key_of r = k) data))"
  using assms
proof (induction data arbitrary: groups)
  case Nil
  then show ?case by (auto split: option.split)
next
  case (Cons x xs)
  let ?g' = "groups(key_of x \<mapsto> (case groups (key_of x) of Some g \<Rightarrow> g | None \<Rightarrow> []) @ [x])"
  have step: "groupBy_step key_of groups x = Inr ?g'"
    by (rule groupBy_step_fresh) (simp add: Cons.prems)
  have "reduce (groupBy_step key_of) ?g' xs =
     Inr (\<lambda>k. case ?g' k of
                 Some g \<Rightarrow> Some (g @ filter (\<lambda>r. key_of r = k) xs)
               | None \<Rightarrow> if filter (\<lambda>r. key_of r = k) xs = [] then None
                         else Some (filter (\<lambda>r. key_of r = k) xs))"
    by (rule Cons.IH) (simp add: Cons.prems)
  moreover have "(case ?g' k of
                 Some g \<Rightarrow> Some (g @ filter (\<lambda>r. key_of r = k) xs)
               | None \<Rightarrow> if filter (\<lambda>r. key_of r = k) xs = [] then None
                         else Some (filter (\<lambda>r. key_of r = k) xs)) =
      (case groups k of
                 Some g \<Rightarrow> Some (g @ filter (\<lambda>r. key_of r = k) (x # xs))
               | None \<Rightarrow> if filter (\<lambda>r. key_of r = k) (x # xs) = [] then None
                         else Some (filter (\<lambda>r. key_of r = k) (x # xs)))" for k
    by (auto split: option.split)
  ultimately show ?case by (simp add: step)
qed

lemma sum_length_groups:
  assumes "finite K" "key_of ` set data \<subseteq> K"
  shows "(\<Sum>k\<in>K. length (filter (\<lambda>r. key_of r = k) data)) = length data"
  using assms(2)
proof (induction data)
  case Nil
  then show ?case by simp
next
  case (Cons x xs)
  have "(\<Sum>k\<in>K. length (filter (\<lambda>r. key_of r = k) (x # xs))) =
      (\<Sum>k\<in>K. (if k = key_of x then 1 else 0) + length (filter (\<lambda>r. key_of r = k) xs))"
    by (intro sum.cong) auto
  also have "\<dots> = (\<Sum>k\<in>K. if k = key_of x then 1 else 0) + length xs"
    using Cons by (simp add: sum.distrib)
  also have "(\<Sum>k\<in>K. if k = key_of x then 1 else 0) = (1::nat)"
    using assms(1) Cons.prems by simp
  finally show ?case by simp
qed

lemma groupBy_partition:
  fixes numstr field
  defines "key_of \<equiv> \<lambda>item. String_of numstr (get item field)"
  assumes "\<And>item. item \<in> set data \<Longrightarrow> key_of item \<notin> set Object_prototype_keys"
  shows "\<exists>groups. groupBy numstr field data = Inr groups
     \<and> dom groups = key_of ` set data
     \<and> (\<forall>k. k \<in> key_of ` set data \<longrightarrow> groups k = Some (filter (\<lambda>r. key_of r = k) data))
     \<and> (\<Sum>k\<in>dom groups. length (the (groups k))) = length data"
proof -
  let ?groups = "\<lambda>k. if filter (\<lambda>r. key_of r = k) data = [] then None
                      else Some (filter (\<lambda>r. key_of r = k) data)"
  have g: "groupBy numstr field data = Inr ?groups"
    unfolding groupBy_def key_of_def [symmetric]
    using reduce_groupBy_step [of data key_of Map.empty] assms(2) by simp
  have d: "dom ?groups = key_of ` set data"
    by (auto simp add: dom_def filter_empty_conv)
  have v: "?groups k = Some (filter (\<lambda>r. key_of r = k) data)" if "k \<in> key_of ` set data" for k
    using that by (auto simp add: filter_empty_conv)
  have "(\<Sum>k\<in>dom ?groups. length (the (?groups k))) =
      (\<Sum>k\<in>key_of ` set data. length (filter (\<lambda>r. key_of r = k) data))"
    unfolding d by (intro sum.cong) (simp_all add: v)
  also have "\<dots> = length data"
    by (rule sum_length_groups) simp_all
  finally have s: "(\<Sum>k\<in>dom ?groups. length (the (?groups k))) = length data" .
  show ?thesis
    using g d v s by blast
qed

text \<open>
  C5: for every working set and field, \<open>groupBy(field)\<close> returns a partition of the
  working set keyed by the text of the field value. The accumulator is a plain object, so
  for a record whose key is the name of an inherited member, like \<open>constructor\<close>, the
  lookup \<open>groups[key]\<close> finds the inherited member, no group is created, and \<open>push\<close>
  raises a \<open>TypeError\<close>: \<open>groupBy\<close> returns no partition at all.
\<close>

theorem groupBy_raises_on_inherited_key:
  "groupBy (\<lambda>n. []) ''category''
     [[(''id'', JNum 1), (''category'', JStr ''constructor'')]] = Inl TypeError"
  by (simp add: groupBy_def groupBy_step_def get_def Object_prototype_keys_def)

section \<open>The working set in the store\<close>

text \<open>
  Every chainable method either assigns a new array to \<open>this.data\<close> or sorts the array
  the analyzer owns: the arrays that existed when the analyzer was constructed, and all
  records, stay as they are.
\<close>

lemma assign_new_frame:
  assumes "assign_new xs (h, this) = (h', this')"
  shows "arrays h' = arrays h @ [xs]" "records h' = records h" "this_data this' = length (arrays h)"
  using assms by (auto simp add: assign_new_def alloc_def)

lemma sort_in_store_frame:
  assumes "sort_in_store compareFn (h, this) = (h', this')"
  shows "\<exists>xs. arrays h' = (arrays h)[this_data this := xs]" "records h' = records h" "this' = this"
  using assms by (auto simp add: sort_in_store_def)

lemma call_frame:
  assumes "owns L s"
  shows "owns L (call fl lc stringify c s)
     \<and> take L (arrays (fst (call fl lc stringify c s))) = take L (arrays (fst s))
     \<and> records (fst (call fl lc stringify c s)) = records (fst s)"
proof -
  obtain h this where s: "s = (h, this)" by (cases s)
  have new: "owns L (assign_new xs s)
     \<and> take L (arrays (fst (assign_new xs s))) = take L (arrays (fst s))
     \<and> records (fst (assign_new xs s)) = records (fst s)" for xs
    using assms by (auto simp add: s owns_def assign_new_def alloc_def)
  have srt: "owns L (sort_in_store f s)
     \<and> take L (arrays (fst (sort_in_store f s))) = take L (arrays (fst s))
     \<and> records (fst (sort_in_store f s)) = records (fst s)" for f
    using assms by (auto simp add: s owns_def sort_in_store_def)
  show ?thesis
    by (cases c) (simp_all add: new srt filter_in_store_def case_prod_beta)
qed

lemma chain_frame:
  assumes "owns L s"
  shows "owns L (chain fl lc stringify calls s)
     \<and> take L (arrays (fst (chain fl lc stringify calls s))) = take L (arrays (fst s))
     \<and> records (fst (chain fl lc stringify calls s)) = records (fst s)"
  using assms unfolding chain_def
proof (induction calls arbitrary: s)
  case Nil
  then show ?case by simp
next
  case (Cons c calls)
  from call_frame [OF Cons.prems, of fl lc stringify c]
  have 1: "owns L (call fl lc stringify c s)"
    and 2: "take L (arrays (fst (call fl lc stringify c s))) = take L (arrays (fst s))"
    and 3: "records (fst (call fl lc stringify c s)) = records (fst s)"
    by simp_all
  from Cons.IH [OF 1] 2 3 show ?case by simp
qed

lemma view_mutate_array:
  "a \<noteq> b \<Longrightarrow> view (mutate_array a xs h) b = view h b"
  by (simp add: view_def mutate_array_def)

lemma DataAnalyzer_new_owns:
  "a < length (arrays h) \<Longrightarrow> owns (length (arrays h)) (DataAnalyzer_new h a)"
  by (simp add: DataAnalyzer_new_def alloc_def owns_def)

lemma take_nth_eq:
  "take L xs = take L ys \<Longrightarrow> b < L \<Longrightarrow> xs ! b = ys ! b"
  by (metis nth_take)

text \<open>
  The methods in the store compute on the records of the working set what the functions
  on values compute.
\<close>

lemma map_insert_sorted:
  "map f (insert_sorted (\<lambda>a b. c (f a) (f b)) x ys) = insert_sorted c (f x) (map f ys)"
  by (induction ys) simp_all

lemma map_stable_sort:
  "map f (stable_sort (\<lambda>a b. c (f a) (f b)) xs) = stable_sort c (map f xs)"
  unfolding stable_sort_def by (induction xs) (simp_all add: map_insert_sorted)

lemma map_Array_sort:
  "map f (Array_sort (\<lambda>a b. compareFn (f a) (f b)) xs) = Array_sort compareFn (map f xs)"
  unfolding Array_sort_def
  by (rule map_stable_sort [of f "\<lambda>a b. comparison_sign (compareFn a b)"])

lemma map_slice: "map f (slice start endIndex xs) = slice start endIndex (map f xs)"
  by (simp add: slice_def Let_def take_map drop_map)

lemma map_distinct_from:
  "map f (distinct_from stringify seen xs f) = distinct_from stringify seen (map f xs) (\<lambda>item. item)"
  by (induction xs arbitrary: seen) (simp_all add: Let_def)

lemma view_assign_new:
  "view (fst (assign_new xs (h, this))) (this_data (snd (assign_new xs (h, this)))) =
     map (\<lambda>r. records h ! r) xs"
  by (simp add: view_def assign_new_def alloc_def)

lemma view_sort_in_store:
  assumes "this_data this < length (arrays h)"
  shows "view (fst (sort_in_store compareFn (h, this)))
       (this_data (snd (sort_in_store compareFn (h, this)))) =
     Array_sort compareFn (view h (this_data this))"
  using assms by (simp add: view_def sort_in_store_def map_Array_sort)

lemma store_refines_value:
  assumes "this_data this < length (arrays h)"
  shows "view (fst (call fl lc stringify c (h, this))) (this_data (snd (call fl lc stringify c (h, this)))) =
    (case c of
       Filter predicate \<Rightarrow> filter_data predicate (view h (this_data this))
     | FilterBy field v \<Rightarrow> filterBy field v (view h (this_data this))
     | FilterByRange field lo hi \<Rightarrow> filterByRange field lo hi (view h (this_data this))
     | Sort compareFn \<Rightarrow> sort_data compareFn (view h (this_data this))
     | SortBy field order \<Rightarrow> sortBy fl lc field order (view h (this_data this))
     | Limit n \<Rightarrow> limit n (view h (this_data this))
     | Skip n \<Rightarrow> skip n (view h (this_data this))
     | Distinct \<Rightarrow> distinct_data stringify (view h (this_data this))
     | Reset newData \<Rightarrow> view h newData)"
proof (cases c)
  case (Filter predicate)
  then show ?thesis
    by (simp add: filter_in_store_def view_assign_new filter_data_def)
      (simp add: view_def filter_map comp_def)
next
  case (FilterBy field v)
  then show ?thesis
    by (simp add: filter_in_store_def view_assign_new filterBy_def)
      (simp add: view_def filter_map comp_def)
next
  case (FilterByRange field lo hi)
  then show ?thesis
    by (simp add: filter_in_store_def view_assign_new filterByRange_def)
      (simp add: view_def filter_map comp_def)
next
  case (Sort compareFn)
  then show ?thesis
    using assms by (simp add: view_sort_in_store sort_data_def)
next
  case (SortBy field order)
  then show ?thesis
    using assms by (simp add: view_sort_in_store sortBy_def)
next
  case (Limit n)
  then show ?thesis
    by (simp add: view_assign_new limit_def) (simp add: view_def map_slice)
next
  case (Skip n)
  then show ?thesis
    by (simp add: view_assign_new skip_def) (simp add: view_def map_slice)
next
  case Distinct
  then show ?thesis
    by (simp add: view_assign_new distinct_data_def) (simp add: view_def map_distinct_from)
next
  case (Reset newData)
  then show ?thesis
    by (simp add: view_assign_new) (simp add: view_def)
qed

lemma chain_isolated:
  assumes "owns L s" "a < L"
  shows "arrays (fst (chain fl lc stringify calls s)) ! a = arrays (fst s) ! a"
    and "records (fst (chain fl lc stringify calls s)) = records (fst s)"
    and "view (fst (chain fl lc stringify calls s)) a = view (fst s) a"
    and "view (mutate_array a xs (fst (chain fl lc stringify calls s)))
           (this_data (snd (chain fl lc stringify calls s))) =
         view (fst (chain fl lc stringify calls s)) (this_data (snd (chain fl lc stringify calls s)))"
proof -
  let ?c = "chain fl lc stringify calls s"
  from chain_frame [OF assms(1), of fl lc stringify calls]
  have o: "owns L ?c"
    and t: "take L (arrays (fst ?c)) = take L (arrays (fst s))"
    and r: "records (fst ?c) = records (fst s)"
    by simp_all
  show ac: "arrays (fst ?c) ! a = arrays (fst s) ! a"
    using t assms(2) by (rule take_nth_eq)
  show "records (fst ?c) = records (fst s)"
    by (rule r)
  show "view (fst ?c) a = view (fst s) a"
    by (simp add: view_def ac r)
  show "view (mutate_array a xs (fst ?c)) (this_data (snd ?c)) = view (fst ?c) (this_data (snd ?c))"
    using o assms(2) by (intro view_mutate_array) (simp add: owns_def)
qed

text \<open>
  C7, as the code has it: the isolation is of the arrays, not of the records. The
  constructor and \<open>reset(newData)\<close> store a copy of the caller's array: after either,
  the working set is the sequence of records the caller's array held, and whatever
  sequence the caller's array is made to hold afterwards, the working set is unchanged.
  And whatever chain of methods is then called on the analyzer, the caller's array holds
  the sequence it held, no record has changed, and the working set stays independent of
  the sequence the caller's array is made to hold.
\<close>

theorem working_set_isolated:
  assumes "a < length (arrays h)"
  shows "view (fst (DataAnalyzer_new h a)) (this_data (snd (DataAnalyzer_new h a))) = view h a
    \<and> (\<forall>xs. view (mutate_array a xs (fst (DataAnalyzer_new h a)))
              (this_data (snd (DataAnalyzer_new h a))) = view h a)
    \<and> view (fst (call fl lc stringify (Reset a) (h, this)))
         (this_data (snd (call fl lc stringify (Reset a) (h, this)))) = view h a
    \<and> (\<forall>xs. view (mutate_array a xs (fst (call fl lc stringify (Reset a) (h, this))))
              (this_data (snd (call fl lc stringify (Reset a) (h, this)))) = view h a)
    \<and> arrays (fst (chain fl lc stringify calls (DataAnalyzer_new h a))) ! a = arrays h ! a
    \<and> records (fst (chain fl lc stringify calls (DataAnalyzer_new h a))) = records h
    \<and> view (fst (chain fl lc stringify calls (DataAnalyzer_new h a))) a = view h a
    \<and> (\<forall>xs. view (mutate_array a xs (fst (chain fl lc stringify calls (DataAnalyzer_new h a))))
              (this_data (snd (chain fl lc stringify calls (DataAnalyzer_new h a)))) =
            view (fst (chain fl lc stringify calls (DataAnalyzer_new h a)))
              (this_data (snd (chain fl lc stringify calls (DataAnalyzer_new h a)))))
    \<and> arrays (fst (chain fl lc stringify calls (call fl lc stringify (Reset a) (h, this)))) ! a =
        arrays h ! a
    \<and> records (fst (chain fl lc stringify calls (call fl lc stringify (Reset a) (h, this)))) =
        records h
    \<and> view (fst (chain fl lc stringify calls (call fl lc stringify (Reset a) (h, this)))) a =
        view h a
    \<and> (\<forall>xs. view (mutate_array a xs
                (fst (chain fl lc stringify calls (call fl lc stringify (Reset a) (h, this)))))
              (this_data (snd (chain fl lc stringify calls (call fl lc stringify (Reset a) (h, this))))) =
            view (fst (chain fl lc stringify calls (call fl lc stringify (Reset a) (h, this))))
              (this_data (snd (chain fl lc stringify calls (call fl lc stringify (Reset a) (h, this))))))"
proof -
  let ?L = "length (arrays h)"
  let ?n = "DataAnalyzer_new h a"
  let ?r = "call fl lc stringify (Reset a) (h, this)"
  have n: "arrays (fst ?n) = arrays h @ [arrays h ! a]" "records (fst ?n) = records h"
    "this_data (snd ?n) = ?L"
    by (simp_all add: DataAnalyzer_new_def alloc_def)
  have r: "arrays (fst ?r) = arrays h @ [arrays h ! a]" "records (fst ?r) = records h"
    "this_data (snd ?r) = ?L"
    by (simp_all add: assign_new_def alloc_def)
  have na: "arrays (fst ?n) ! a = arrays h ! a"
    unfolding n(1) using assms by (simp add: nth_append)
  have ra: "arrays (fst ?r) ! a = arrays h ! a"
    unfolding r(1) using assms by (simp add: nth_append)
  have vna: "view (fst ?n) a = view h a"
    unfolding view_def by (simp only: na n(2))
  have vra: "view (fst ?r) a = view h a"
    unfolding view_def by (simp only: ra r(2))
  have on: "owns ?L ?n"
    using assms by (rule DataAnalyzer_new_owns)
  have or: "owns ?L ?r"
    unfolding owns_def by (simp only: r) simp
  have vn: "view (fst ?n) (this_data (snd ?n)) = view h a"
    by (simp add: view_def n)
  have vr: "view (fst ?r) (this_data (snd ?r)) = view h a"
    unfolding view_def by (simp only: r) simp
  have mn: "view (mutate_array a xs (fst ?n)) (this_data (snd ?n)) = view h a" for xs
  proof -
    have "a \<noteq> this_data (snd ?n)" using assms by (simp only: n)
    from view_mutate_array [OF this, of xs "fst ?n"] vn show ?thesis by (rule trans)
  qed
  have mr: "view (mutate_array a xs (fst ?r)) (this_data (snd ?r)) = view h a" for xs
  proof -
    have "a \<noteq> this_data (snd ?r)" using assms by (simp only: r)
    from view_mutate_array [OF this, of xs "fst ?r"] vr show ?thesis by (rule trans)
  qed
  note cn = chain_isolated [where fl = fl and lc = lc and stringify = stringify and calls = calls,
      OF on assms]
  note cr = chain_isolated [where fl = fl and lc = lc and stringify = stringify and calls = calls,
      OF or assms]
  have c1: "arrays (fst (chain fl lc stringify calls ?n)) ! a = arrays h ! a"
    using cn(1) na by (rule trans)
  have c2: "records (fst (chain fl lc stringify calls ?n)) = records h"
    using cn(2) n(2) by (rule trans)
  have c3: "view (fst (chain fl lc stringify calls ?n)) a = view h a"
    using cn(3) vna by (rule trans)
  have d1: "arrays (fst (chain fl lc stringify calls ?r)) ! a = arrays h ! a"
    using cr(1) ra by (rule trans)
  have d2: "records (fst (chain fl lc stringify calls ?r)) = records h"
    using cr(2) r(2) by (rule trans)
  have d3: "view (fst (chain fl lc stringify calls ?r)) a = view h a"
    using cr(3) vra by (rule trans)
  from vn mn vr mr c1 c2 c3 cn(4) d1 d2 d3 cr(4) show ?thesis
    by (intro conjI allI)
qed

text \<open>
  An analyzer over three records is sorted and limited to two; the caller then empties
  its array. The working set is the two cheapest records, the caller's array held its
  three records in their order until the caller emptied it.
\<close>

theorem working_set_isolated_witness:
  "(0::nat) < length (arrays \<lparr>arrays = [[0, 1, 2]],
       records = [[(''price'', JNum 30)], [(''price'', JNum 10)], [(''price'', JNum 20)]]\<rparr>)
   \<and> view (mutate_array 0 []
        (fst (chain Finite (\<lambda>s t. Finite 0) (\<lambda>item. []) [SortBy ''price'' ASC, Limit 2]
           (DataAnalyzer_new \<lparr>arrays = [[0, 1, 2]],
              records = [[(''price'', JNum 30)], [(''price'', JNum 10)], [(''price'', JNum 20)]]\<rparr> 0))))
        (this_data (snd (chain Finite (\<lambda>s t. Finite 0) (\<lambda>item. []) [SortBy ''price'' ASC, Limit 2]
           (DataAnalyzer_new \<lparr>arrays = [[0, 1, 2]],
              records = [[(''price'', JNum 30)], [(''price'', JNum 10)], [(''price'', JNum 20)]]\<rparr> 0)))) =
       [[(''price'', JNum 10)], [(''price'', JNum 20)]]
   \<and> view (fst (chain Finite (\<lambda>s t. Finite 0) (\<lambda>item. []) [SortBy ''price'' ASC, Limit 2]
           (DataAnalyzer_new \<lparr>arrays = [[0, 1, 2]],
              records = [[(''price'', JNum 30)], [(''price'', JNum 10)], [(''price'', JNum 20)]]\<rparr> 0))) 0 =
       [[(''price'', JNum 30)], [(''price'', JNum 10)], [(''price'', JNum 20)]]"
proof -
  let ?h = "\<lparr>arrays = [[0, 1, 2]],
       records = [[(''price'', JNum 30)], [(''price'', JNum 10)], [(''price'', JNum 20)]]\<rparr>"
  let ?c = "chain Finite (\<lambda>s t. Finite 0) (\<lambda>item. []) [SortBy ''price'' ASC, Limit 2]
              (DataAnalyzer_new ?h 0)"
  have h: "(0::nat) < length (arrays ?h)" by simp
  have c: "?c = (\<lparr>arrays = [[0, 1, 2], [1, 2, 0], [1, 2]],
       records = [[(''price'', JNum 30)], [(''price'', JNum 10)], [(''price'', JNum 20)]]\<rparr>,
       \<lparr>this_data = 2\<rparr>)"
    by (simp add: chain_def DataAnalyzer_new_def alloc_def assign_new_def sort_in_store_def
        Array_sort_def stable_sort_def sortBy_compare_def js_sub_def get_def slice_def
        relative_index_def ToIntegerOrInfinity_def)
  have v: "view (fst ?c) (this_data (snd ?c)) = [[(''price'', JNum 10)], [(''price'', JNum 20)]]"
    unfolding c by (simp add: view_def)
  note t = working_set_isolated [where h = ?h and a = 0 and fl = Finite
      and lc = "\<lambda>s t. Finite 0" and stringify = "\<lambda>item. []" and this = "\<lparr>this_data = 0\<rparr>"
      and calls = "[SortBy ''price'' ASC, Limit 2]", OF h]
  note t5 = t [THEN conjunct2, THEN conjunct2, THEN conjunct2, THEN conjunct2, THEN conjunct2,
      THEN conjunct2]
  have "view (fst ?c) 0 = view ?h 0"
    by (rule t5 [THEN conjunct1])
  moreover have "view (mutate_array 0 [] (fst ?c)) (this_data (snd ?c)) =
      view (fst ?c) (this_data (snd ?c))"
    by (rule t5 [THEN conjunct2, THEN conjunct1, THEN spec])
  ultimately show ?thesis
    using h v by (simp add: view_def)
qed

text \<open>
  The claim as stated fails for what the collection holds: the copy is of the array, and
  record objects are not copied. After construction the working set is the caller's two
  records; the caller then assigns to a field of the second record object, which changes
  no array, and the working set shows the new price.
\<close>

theorem records_are_shared:
  "view (fst (DataAnalyzer_new \<lparr>arrays = [[0, 1]],
              records = [[(''price'', JNum 30)], [(''price'', JNum 10)]]\<rparr> 0))
     (this_data (snd (DataAnalyzer_new \<lparr>arrays = [[0, 1]],
              records = [[(''price'', JNum 30)], [(''price'', JNum 10)]]\<rparr> 0))) =
   [[(''price'', JNum 30)], [(''price'', JNum 10)]]
   \<and> arrays (mutate_record 1 [(''price'', JNum 99)]
        (fst (DataAnalyzer_new \<lparr>arrays = [[0, 1]],
              records = [[(''price'', JNum 30)], [(''price'', JNum 10)]]\<rparr> 0))) =
     arrays (fst (DataAnalyzer_new \<lparr>arrays = [[0, 1]],
              records = [[(''price'', JNum 30)], [(''price'', JNum 10)]]\<rparr> 0))
   \<and> view (mutate_record 1 [(''price'', JNum 99)]
        (fst (DataAnalyzer_new \<lparr>arrays = [[0, 1]],
              records = [[(''price'', JNum 30)], [(''price'', JNum 10)]]\<rparr> 0)))
     (this_data (snd (DataAnalyzer_new \<lparr>arrays = [[0, 1]],
              records = [[(''price'', JNum 30)], [(''price'', JNum 10)]]\<rparr> 0))) =
   [[(''price'', JNum 30)], [(''price'', JNum 99)]]"
  by (simp add: DataAnalyzer_new_def alloc_def view_def mutate_record_def)

end
